theory Spec2Isabelle
  imports Main "HOL-Library.Word" "HOL-Library.Sublist"
begin

unbundle bit_operations_syntax

section \<open>Types, errors and the factory (DistinctAggregations.cpp)\<close>

text \<open>
  Every failure of the source is fatal (a thrown \<open>VeloxRuntimeError\<close>); the model
  returns it as a value. \<open>CheckFailed\<close> is a failed \<open>VELOX_CHECK*\<close>,
  \<open>Unreachable\<close> is \<open>VELOX_UNREACHABLE\<close>, \<open>OutOfRange\<close> is an index or a
  pointer outside its container, \<open>NotConstructed\<close> is the use of an accumulator in a
  row where none has been constructed.
\<close>

datatype error = CheckFailed | Unreachable | OutOfRange | NotConstructed

text \<open>
  \<open>TypeKind\<close> is declared in velox/type/Type.h, which is not among the source files.
  The switch of \<open>DistinctAggregations::create\<close> names twelve kinds; the remaining
  constructors stand for the kinds that reach its \<open>default\<close> branch.
\<close>

datatype TypeKind =
    BOOLEAN | TINYINT | SMALLINT | INTEGER | BIGINT | REAL | DOUBLE | VARCHAR
  | VARBINARY | TIMESTAMP | HUGEINT | ARRAY | MAP | ROW | UNKNOWN | FUNCTION
  | OPAQUE | INVALID

text \<open>A type is its kind and its named children (\<open>RowType::nameOf\<close>, \<open>childAt\<close>).\<close>

datatype velox_type = VType (kind: TypeKind) (typeFields: "(string \<times> velox_type) list")

definition childAt :: "velox_type \<Rightarrow> nat \<Rightarrow> error + velox_type" where
  "childAt t idx = (if idx < length (typeFields t) then Inr (snd (typeFields t ! idx)) else Inl OutOfRange)"

definition nameOf :: "velox_type \<Rightarrow> nat \<Rightarrow> error + string" where
  "nameOf t idx = (if idx < length (typeFields t) then Inr (fst (typeFields t ! idx)) else Inl OutOfRange)"

text \<open>The template argument \<open>T\<close> of \<open>TypedDistinctAggregations<T>\<close>.\<close>

datatype specialization =
    T_bool | T_int8 | T_int16 | T_int32 | T_int64 | T_float | T_double
  | T_Timestamp | T_StringView | T_ComplexType

text \<open>
  \<open>AggregateInfo\<close>: the fields the source reads. \<open>func\<close> is \<open>function\<close>, the
  wrapped aggregate function, kept abstract here.
\<close>

record 'f AggregateInfo =
  func :: 'f
  inputs :: "nat list"
  agg_output :: nat

record 'f TypedDistinctAggregations =
  tda_T :: specialization
  tda_aggregates :: "'f AggregateInfo list"
  tda_inputs :: "nat list"
  tda_inputType :: velox_type

text \<open>
  \<open>makeInputTypeForAccumulator\<close>: the sole input column's type, or a synthesized
  \<open>ROW\<close> of the input columns' names and types.
\<close>

fun collectFields :: "velox_type \<Rightarrow> nat list \<Rightarrow> error + (string \<times> velox_type) list" where
  "collectFields rowType [] = Inr []"
| "collectFields rowType (channelIndex # rest) =
     (case nameOf rowType channelIndex of
        Inl e \<Rightarrow> Inl e
      | Inr n \<Rightarrow>
         (case childAt rowType channelIndex of
            Inl e \<Rightarrow> Inl e
          | Inr t \<Rightarrow>
             (case collectFields rowType rest of
                Inl e \<Rightarrow> Inl e
              | Inr fs \<Rightarrow> Inr ((n, t) # fs))))"

definition makeInputTypeForAccumulator :: "velox_type \<Rightarrow> nat list \<Rightarrow> error + velox_type" where
  "makeInputTypeForAccumulator rowType ins =
     (if length ins = 1 then childAt rowType (ins ! 0)
      else (case collectFields rowType ins of
              Inl e \<Rightarrow> Inl e
            | Inr fs \<Rightarrow> Inr (VType ROW fs)))"

text \<open>The constructor of \<open>TypedDistinctAggregations<T>\<close>.\<close>

definition construct ::
  "specialization \<Rightarrow> 'f AggregateInfo list \<Rightarrow> velox_type \<Rightarrow> error + 'f TypedDistinctAggregations" where
  "construct T aggregates inputType =
     (case makeInputTypeForAccumulator inputType (inputs (aggregates ! 0)) of
        Inl e \<Rightarrow> Inl e
      | Inr t \<Rightarrow>
          Inr \<lparr>tda_T = T, tda_aggregates = aggregates,
               tda_inputs = inputs (aggregates ! 0), tda_inputType = t\<rparr>)"

text \<open>The switch over \<open>type->kind()\<close> of \<open>DistinctAggregations::create\<close>.\<close>

fun dispatch :: "TypeKind \<Rightarrow> error + specialization" where
  "dispatch BOOLEAN = Inr T_bool"
| "dispatch TINYINT = Inr T_int8"
| "dispatch SMALLINT = Inr T_int16"
| "dispatch INTEGER = Inr T_int32"
| "dispatch BIGINT = Inr T_int64"
| "dispatch REAL = Inr T_float"
| "dispatch DOUBLE = Inr T_double"
| "dispatch TIMESTAMP = Inr T_Timestamp"
| "dispatch VARCHAR = Inr T_StringView"
| "dispatch ARRAY = Inr T_ComplexType"
| "dispatch MAP = Inr T_ComplexType"
| "dispatch ROW = Inr T_ComplexType"
| "dispatch _ = Inl Unreachable"

definition create ::
  "'f AggregateInfo list \<Rightarrow> velox_type \<Rightarrow> error + 'f TypedDistinctAggregations" where
  "create aggregates inputType =
     (if length aggregates \<noteq> 1 then Inl CheckFailed
      else if inputs (aggregates ! 0) = [] then Inl CheckFailed
      else if \<not> (length (inputs (aggregates ! 0)) = 1)
        then construct T_ComplexType aggregates inputType
      else (case childAt inputType (inputs (aggregates ! 0) ! 0) of
              Inl e \<Rightarrow> Inl e
            | Inr type \<Rightarrow>
               (case dispatch (kind type) of
                  Inl e \<Rightarrow> Inl e
                | Inr T \<Rightarrow> construct T aggregates inputType)))"

subsection \<open>Vocabulary of the factory's contract\<close>

text \<open>Every declared input channel names a column of the input row type.\<close>

definition channelsInRange :: "velox_type \<Rightarrow> nat list \<Rightarrow> bool" where
  "channelsInRange rowType ins = list_all (\<lambda>c. c < length (typeFields rowType)) ins"

text \<open>The kinds the switch of \<open>create\<close> has a case for.\<close>

definition supportedKinds :: "TypeKind list" where
  "supportedKinds = [BOOLEAN, TINYINT, SMALLINT, INTEGER, BIGINT, REAL, DOUBLE, TIMESTAMP,
               VARCHAR, ARRAY, MAP, ROW]"

text \<open>
  Supported inputs: the channels exist, and a sole input column has a kind of
  \<open>supportedKinds\<close> (several columns are combined into a \<open>ROW\<close> whatever their kinds).
\<close>

definition supportedInputs :: "velox_type \<Rightarrow> nat list \<Rightarrow> bool" where
  "supportedInputs rowType ins =
     (channelsInRange rowType ins \<and>
      (if length ins = 1
       then List.member supportedKinds (kind (snd (typeFields rowType ! (ins ! 0))))
       else True))"

text \<open>The specialization a successful construction carries; \<open>None\<close> when \<open>create\<close> fails.\<close>

definition selectedSpecialization :: "'f AggregateInfo list \<Rightarrow> velox_type \<Rightarrow> specialization option" where
  "selectedSpecialization aggregates inputType =
     (case create aggregates inputType of Inl e \<Rightarrow> None | Inr d \<Rightarrow> Some (tda_T d))"

text \<open>Sample inputs: a row type of three columns and an aggregate over given channels.\<close>

definition exAgg :: "nat list \<Rightarrow> unit AggregateInfo" where
  "exAgg ins = \<lparr>func = (), inputs = ins, agg_output = 0\<rparr>"

definition exRowType :: velox_type where
  "exRowType = VType ROW [(''x'', VType BIGINT []), (''y'', VType VARCHAR []),
                          (''z'', VType ARRAY [(''e'', VType INTEGER [])])]"

section \<open>The positioned value store (AddressableNonNullValueList.cpp)\<close>

subsection \<open>Bytes and the 8-byte hash\<close>

type_synonym byte = "8 word"

text \<open>
  \<open>ByteOutputStream::appendOne(uint64_t)\<close> and \<open>ByteInputStream::read<uint64_t>()\<close>
  copy the eight bytes of the value in memory order, least significant byte first.
\<close>

fun toBytes :: "nat \<Rightarrow> 64 word \<Rightarrow> byte list" where
  "toBytes 0 w = []"
| "toBytes (Suc n) w = ucast w # toBytes n (drop_bit 8 w)"

definition fromBytes :: "byte list \<Rightarrow> 64 word" where
  "fromBytes bs = foldr (\<lambda>b acc. ucast b OR push_bit 8 acc) bs 0"

subsection \<open>The allocator and its streams\<close>

text \<open>
  Modelled from the spec: \<open>HashStringAllocator\<close>, \<open>ByteOutputStream\<close> and
  \<open>ByteInputStream\<close> are not among the source files. The spec gives the store one
  forward-growing chain of pool-allocated blocks, a small first block, growth in bounded
  increments that first uses up the capacity left in the most recent block, and positions
  made of a block reference and a byte offset within that block; reading starts from
  \<open>prepareRead\<close>, which yields a cursor into the chunk chain given a chunk reference.

  The model follows the chain of one store: \<open>blocks\<close> holds the usable bytes of each block
  in chain order, a header is an index into it, and the bytes of fresh memory are the
  arbitrary value \<open>junk\<close>. A continuation block holds the byte being written and
  \<open>increment\<close> further bytes. Memory never runs out.
\<close>

record HashStringAllocator =
  blocks :: "byte list list"
  junk :: byte
  increment :: nat

text \<open>
  \<open>HashStringAllocator::Position\<close>. In the source \<open>position\<close> is a pointer; here it is
  the offset from \<open>header->begin()\<close>, so the \<open>seek\<close> of \<open>prepareRead\<close> is the field itself.
\<close>

record Position =
  header :: nat
  position :: nat

text \<open>
  An output stream writes through to the allocator it was made for; the model carries the
  allocator's state in the stream and hands it back in \<open>HSA_finishWrite\<close>.
\<close>

record ByteOutputStream =
  arena :: HashStringAllocator
  startPosition :: Position
  writePosition :: Position

text \<open>An input stream: the bytes of its ranges, one after the other, and a cursor.\<close>

record ByteInputStream =
  ranges :: "byte list"
  cursor :: nat

text \<open>
  Modelled from the spec: \<open>HashStringAllocator::newWrite\<close>, a new block of the
  preferred size; the write starts at its first byte.
\<close>

definition newWrite :: "HashStringAllocator \<Rightarrow> nat \<Rightarrow> Position \<times> ByteOutputStream" where
  "newWrite a preferredSize =
     (let p = \<lparr>header = length (blocks a), position = 0\<rparr>
      in (p, \<lparr>arena = a\<lparr>blocks := blocks a @ [replicate preferredSize (junk a)]\<rparr>,
              startPosition = p, writePosition = p\<rparr>))"

text \<open>
  Modelled from the spec: \<open>HashStringAllocator::extendWrite\<close>, the write continues at
  a position reached by an earlier write.
\<close>

definition extendWrite :: "HashStringAllocator \<Rightarrow> Position \<Rightarrow> ByteOutputStream" where
  "extendWrite a p = \<lparr>arena = a, startPosition = p, writePosition = p\<rparr>"

text \<open>
  Modelled from the spec: writing one byte through a \<open>ByteOutputStream\<close>, into the
  current block while it has room, otherwise into a new continuation block at the end of
  the chain.
\<close>

definition appendByte :: "ByteOutputStream \<Rightarrow> byte \<Rightarrow> ByteOutputStream" where
  "appendByte s b =
     (let a = arena s; p = writePosition s; blk = blocks a ! header p
      in if position p < length blk
         then s\<lparr>arena := a\<lparr>blocks := (blocks a)[header p := blk[position p := b]]\<rparr>,
                writePosition := p\<lparr>position := position p + 1\<rparr>\<rparr>
         else s\<lparr>arena := a\<lparr>blocks := blocks a @ [b # replicate (increment a) (junk a)]\<rparr>,
                writePosition := \<lparr>header = length (blocks a), position = 1\<rparr>\<rparr>)"

text \<open>\<open>ByteOutputStream::append\<close> of a byte range.\<close>

fun appendBytes :: "ByteOutputStream \<Rightarrow> byte list \<Rightarrow> ByteOutputStream" where
  "appendBytes s [] = s"
| "appendBytes s (b # bs) = appendBytes (appendByte s b) bs"

definition appendOne :: "ByteOutputStream \<Rightarrow> 64 word \<Rightarrow> ByteOutputStream" where
  "appendOne s v = appendBytes s (toBytes 8 v)"

text \<open>
  Modelled from the spec: \<open>HashStringAllocator::finishWrite\<close>, which gives the
  positions where the write started and where it ended. The number of reserve bytes only
  bounds the unused capacity kept after the end.
\<close>

definition HSA_finishWrite ::
  "ByteOutputStream \<Rightarrow> nat \<Rightarrow> HashStringAllocator \<times> Position \<times> Position" where
  "HSA_finishWrite s numReserveBytes = (arena s, startPosition s, writePosition s)"

text \<open>
  Modelled from the spec: \<open>HashStringAllocator::prepareRead\<close>, a cursor over the chain
  that starts at the given header, placed at its first byte; and the operations of
  \<open>ByteInputStream\<close> the source calls. \<open>seekp\<close> sets the cursor to a distance from the
  start of the stream (the source passes it the distance from \<open>header->begin()\<close>),
  \<open>skip\<close> advances it, and \<open>size\<close> is the number of bytes of the stream.
\<close>

definition HSA_prepareRead :: "HashStringAllocator \<Rightarrow> nat \<Rightarrow> ByteInputStream" where
  "HSA_prepareRead a hdr = \<lparr>ranges = concat (drop hdr (blocks a)), cursor = 0\<rparr>"

definition seekp :: "ByteInputStream \<Rightarrow> nat \<Rightarrow> ByteInputStream" where
  "seekp s n = s\<lparr>cursor := n\<rparr>"

definition skip :: "ByteInputStream \<Rightarrow> nat \<Rightarrow> ByteInputStream" where
  "skip s n = s\<lparr>cursor := cursor s + n\<rparr>"

definition streamSize :: "ByteInputStream \<Rightarrow> nat" where
  "streamSize s = length (ranges s)"

text \<open>The bytes from the cursor on: what a decoder reading from the stream sees.\<close>

definition remaining :: "ByteInputStream \<Rightarrow> byte list" where
  "remaining s = drop (cursor s) (ranges s)"

definition readBytes :: "ByteInputStream \<Rightarrow> nat \<Rightarrow> error + byte list" where
  "readBytes s n = (if cursor s + n \<le> length (ranges s) then Inr (take n (remaining s))
                    else Inl OutOfRange)"

definition read_uint64 :: "ByteInputStream \<Rightarrow> error + 64 word" where
  "read_uint64 s = (case readBytes s 8 of Inl e \<Rightarrow> Inl e | Inr bs \<Rightarrow> Inr (fromBytes bs))"

subsection \<open>The store's operations\<close>

text \<open>
  The members \<open>firstHeader_\<close>, \<open>currentPosition_\<close> and \<open>size_\<close>; a null
  \<open>firstHeader_\<close> is \<open>None\<close>.
\<close>

record AddressableNonNullValueList =
  firstHeader :: "nat option"
  currentPosition :: Position
  listSize :: nat

definition kInitialSize :: nat where
  "kInitialSize = 44"

definition makeOutputStream ::
  "AddressableNonNullValueList \<Rightarrow> HashStringAllocator \<Rightarrow>
     AddressableNonNullValueList \<times> ByteOutputStream" where
  "makeOutputStream l allocator =
     (case firstHeader l of
        None \<Rightarrow>
          (let (p, stream) = newWrite allocator kInitialSize
           in (l\<lparr>currentPosition := p, firstHeader := Some (header p)\<rparr>, stream))
      | Some h \<Rightarrow> (l, extendWrite allocator (currentPosition l)))"

definition finishWrite ::
  "AddressableNonNullValueList \<Rightarrow> ByteOutputStream \<Rightarrow>
     Position \<times> AddressableNonNullValueList \<times> HashStringAllocator" where
  "finishWrite l stream =
     (let l1 = l\<lparr>listSize := listSize l + 1\<rparr>;
          (allocator, startAndFinish) = HSA_finishWrite stream 1024
      in (fst startAndFinish, l1\<lparr>currentPosition := snd startAndFinish\<rparr>, allocator))"

text \<open>
  \<open>append\<close>. The value is the element of \<open>decoded.base()\<close> at \<open>decoded.index(index)\<close>;
  \<open>hashValueAt\<close> is the vector's hash of it and \<open>serialize\<close> the bytes
  \<open>ContainerRowSerde::serialize\<close> writes for it (the codec is an external collaborator,
  taken as a parameter).
\<close>

definition append ::
  "('v \<Rightarrow> 64 word) \<Rightarrow> ('v \<Rightarrow> byte list) \<Rightarrow> AddressableNonNullValueList \<Rightarrow> 'v \<Rightarrow>
     HashStringAllocator \<Rightarrow> Position \<times> AddressableNonNullValueList \<times> HashStringAllocator" where
  "append hashValueAt serialize l v allocator =
     (let (l1, stream) = makeOutputStream l allocator;
          stream1 = appendOne stream (hashValueAt v);
          stream2 = appendBytes stream1 (serialize v)
      in finishWrite l1 stream2)"

definition appendSerialized ::
  "AddressableNonNullValueList \<Rightarrow> HashStringAllocator \<Rightarrow> byte list \<Rightarrow> nat \<Rightarrow>
     Position \<times> AddressableNonNullValueList \<times> HashStringAllocator" where
  "appendSerialized l allocator buffer n =
     (let (l1, stream) = makeOutputStream l allocator;
          stream1 = appendBytes stream (take n buffer)
      in finishWrite l1 stream1)"

text \<open>
  The file-local \<open>prepareRead\<close>. The static readers of the source reach the memory
  through the position's pointers; the model passes the allocator's state.
\<close>

definition prepareRead :: "HashStringAllocator \<Rightarrow> Position \<Rightarrow> bool \<Rightarrow> ByteInputStream" where
  "prepareRead a pos skipHash =
     (let hdr = header pos;
          seek = position pos;
          stream = HSA_prepareRead a hdr;
          stream1 = seekp stream seek
      in if skipHash then skip stream1 8 else stream1)"

datatype NullHandlingMode = kNullAsValue | kNullAsIndeterminate

record CompareFlags =
  equalsOnly :: bool
  nullHandlingMode :: NullHandlingMode

definition equality :: "NullHandlingMode \<Rightarrow> CompareFlags" where
  "equality m = \<lparr>equalsOnly = True, nullHandlingMode = m\<rparr>"

text \<open>
  \<open>equalTo\<close>; \<open>compare\<close> is \<open>ContainerRowSerde::compare\<close> on what the two streams
  hold from their cursors on.
\<close>

definition equalTo ::
  "(byte list \<Rightarrow> byte list \<Rightarrow> 't \<Rightarrow> CompareFlags \<Rightarrow> int) \<Rightarrow>
     HashStringAllocator \<Rightarrow> Position \<Rightarrow> Position \<Rightarrow> 't \<Rightarrow> bool" where
  "equalTo compare a left right type =
     (let leftStream = prepareRead a left True;
          rightStream = prepareRead a right True;
          compareFlags = equality kNullAsValue
      in compare (remaining leftStream) (remaining rightStream) type compareFlags = 0)"

definition readHash :: "HashStringAllocator \<Rightarrow> Position \<Rightarrow> error + 64 word" where
  "readHash a pos = (let stream = prepareRead a pos False in read_uint64 stream)"

text \<open>
  \<open>read\<close>; \<open>deserialize\<close> is the value \<open>ContainerRowSerde::deserialize\<close> decodes from
  the stream, stored into the result vector at \<open>index\<close>.
\<close>

definition read ::
  "(byte list \<Rightarrow> 'v) \<Rightarrow> HashStringAllocator \<Rightarrow> Position \<Rightarrow> 'v list \<Rightarrow> nat \<Rightarrow> 'v list" where
  "read deserialize a pos result index =
     (let stream = prepareRead a pos True in result[index := deserialize (remaining stream)])"

definition getSerializedSize :: "HashStringAllocator \<Rightarrow> Position \<Rightarrow> nat" where
  "getSerializedSize a pos = streamSize (prepareRead a pos False)"

text \<open>
  \<open>copySerializedTo\<close>: the buffer afterwards and the number of bytes copied, or the
  failed check.
\<close>

definition copySerializedTo ::
  "HashStringAllocator \<Rightarrow> Position \<Rightarrow> byte list \<Rightarrow> nat \<Rightarrow> error + byte list \<times> nat" where
  "copySerializedTo a pos buffer n =
     (let stream = prepareRead a pos False;
          size = streamSize stream
      in if \<not> (n \<ge> size) then Inl CheckFailed
         else (case readBytes (seekp stream 0) size of
                 Inl e \<Rightarrow> Inl e
               | Inr bs \<Rightarrow> Inr (bs @ drop size buffer, size)))"

subsection \<open>Vocabulary for the store's properties\<close>

text \<open>The offset of a position from the start of the whole chain.\<close>

definition offsetOf :: "byte list list \<Rightarrow> Position \<Rightarrow> nat" where
  "offsetOf bl p = length (concat (take (header p) bl)) + position p"

text \<open>A write position lies in the last block of the chain, at most at its end.\<close>

definition wfPos :: "HashStringAllocator \<Rightarrow> Position \<Rightarrow> bool" where
  "wfPos a p = (Suc (header p) = length (blocks a) \<and> position p \<le> length (blocks a ! header p))"

text \<open>The bytes of the chain before the stream's write position.\<close>

definition written :: "ByteOutputStream \<Rightarrow> byte list" where
  "written s = take (offsetOf (blocks (arena s)) (writePosition s)) (concat (blocks (arena s)))"

text \<open>
  The store's invariant: once it has a first block, its current position is a write
  position of the allocator. A new store satisfies it, and \<open>append\<close> keeps it.
\<close>

definition wfList :: "AddressableNonNullValueList \<Rightarrow> HashStringAllocator \<Rightarrow> bool" where
  "wfList l a = (case firstHeader l of None \<Rightarrow> True | Some h \<Rightarrow> wfPos a (currentPosition l))"

text \<open>The stream \<open>s2\<close> is \<open>s\<close> after writing the bytes \<open>bs\<close>.\<close>

definition extends :: "ByteOutputStream \<Rightarrow> ByteOutputStream \<Rightarrow> byte list \<Rightarrow> bool" where
  "extends s s2 bs =
     (wfPos (arena s2) (writePosition s2) \<and> written s2 = written s @ bs \<and>
      startPosition s2 = startPosition s \<and>
      prefix (map length (blocks (arena s))) (map length (blocks (arena s2))))"

text \<open>The bytes \<open>bs\<close> lie at position \<open>p\<close>, before the store's current position.\<close>

definition stored ::
  "AddressableNonNullValueList \<Rightarrow> HashStringAllocator \<Rightarrow> Position \<Rightarrow> byte list \<Rightarrow> bool" where
  "stored l a p bs =
     (firstHeader l \<noteq> None \<and> header p < length (blocks a) \<and>
      offsetOf (blocks a) p + length bs \<le> offsetOf (blocks a) (currentPosition l) \<and>
      take (length bs) (remaining (prepareRead a p False)) = bs)"

text \<open>Appending further values, one after the other.\<close>

fun appendMany ::
  "('v \<Rightarrow> 64 word) \<Rightarrow> ('v \<Rightarrow> byte list) \<Rightarrow> AddressableNonNullValueList \<Rightarrow>
     HashStringAllocator \<Rightarrow> 'v list \<Rightarrow> AddressableNonNullValueList \<times> HashStringAllocator" where
  "appendMany hashValueAt serialize l a [] = (l, a)"
| "appendMany hashValueAt serialize l a (w # ws) =
     (case append hashValueAt serialize l w a of
        (p, l1, a1) \<Rightarrow> appendMany hashValueAt serialize l1 a1 ws)"

text \<open>
  Sample store: 64-bit integers serialized as their eight bytes, appended to a new store
  of an empty allocator. \<open>exTwo\<close> is the result of appending 5 and then 7.
\<close>

definition exAllocator :: HashStringAllocator where
  "exAllocator = \<lparr>blocks = [], junk = 0xAA, increment = 15\<rparr>"

definition emptyList :: AddressableNonNullValueList where
  "emptyList = \<lparr>firstHeader = None, currentPosition = \<lparr>header = 0, position = 0\<rparr>, listSize = 0\<rparr>"

definition exHash :: "64 word \<Rightarrow> 64 word" where
  "exHash v = v * 31 + 7"

definition exSerialize :: "64 word \<Rightarrow> byte list" where
  "exSerialize v = toBytes 8 v"

definition exDeserialize :: "byte list \<Rightarrow> 64 word" where
  "exDeserialize bs = fromBytes (take 8 bs)"

definition exTwo :: "Position \<times> AddressableNonNullValueList \<times> HashStringAllocator" where
  "exTwo = (case append exHash exSerialize emptyList 5 exAllocator of
              (p1, l1, a1) \<Rightarrow> append exHash exSerialize l1 7 a1)"

definition exBlock :: "byte list" where
  "exBlock = [162, 0, 0, 0, 0, 0, 0, 0, 5, 0, 0, 0, 0, 0, 0, 0,
              224, 0, 0, 0, 0, 0, 0, 0, 7, 0, 0, 0, 0, 0, 0, 0] @ replicate 12 0xAA"

section \<open>Distinct aggregations over group rows (DistinctAggregations.cpp)\<close>

subsection \<open>Vectors\<close>

text \<open>
  A vector is the list of its cells. A cell of a \<open>RowVector\<close> holds the cells of its
  children at that row.
\<close>

datatype 'a cell = Cell 'a | RowCell "'a cell list"

text \<open>A \<open>RowVector\<close> used as an input batch: its size and its child vectors.\<close>

record 'a RowVector =
  rv_size :: nat
  rv_children :: "'a cell list list"

definition rv_childAt :: "'a RowVector \<Rightarrow> nat \<Rightarrow> error + 'a cell list" where
  "rv_childAt input idx =
     (if idx < length (rv_children input) then Inr (rv_children input ! idx) else Inl OutOfRange)"

text \<open>The row vector assembled from child vectors: cell \<open>i\<close> holds the children's cells \<open>i\<close>.\<close>

definition makeRowCells :: "nat \<Rightarrow> 'a cell list list \<Rightarrow> 'a cell list" where
  "makeRowCells n newChildren = map (\<lambda>i. RowCell (map (\<lambda>c. c ! i) newChildren)) [0..<n]"

fun fieldsOf :: "'a cell \<Rightarrow> 'a cell list" where
  "fieldsOf (RowCell fs) = fs"
| "fieldsOf (Cell x) = []"

text \<open>\<open>RowVector::children()\<close> of a vector of row cells with \<open>k\<close> children.\<close>

definition rowChildren :: "nat \<Rightarrow> 'a cell list \<Rightarrow> 'a cell list list" where
  "rowChildren k data = map (\<lambda>j. map (\<lambda>c. fieldsOf c ! j) data) [0..<k]"

text \<open>
  The spill column: an \<open>ArrayVector\<close> with its offsets and sizes and a flat elements
  vector of strings.
\<close>

record ArrayVector =
  av_offsets :: "nat list"
  av_sizes :: "nat list"
  av_elements :: "byte list list"

text \<open>
  \<open>sizeAt\<close> and \<open>offsetAt\<close> read the raw arrays; an index outside them, which the
  source does not check, is an error here.
\<close>

definition sizeAt :: "ArrayVector \<Rightarrow> nat \<Rightarrow> error + nat" where
  "sizeAt v index = (if index < length (av_sizes v) then Inr (av_sizes v ! index) else Inl OutOfRange)"

definition offsetAt :: "ArrayVector \<Rightarrow> nat \<Rightarrow> error + nat" where
  "offsetAt v index =
     (if index < length (av_offsets v) then Inr (av_offsets v ! index) else Inl OutOfRange)"

subsection \<open>Group rows\<close>

text \<open>
  A group row is a buffer owned by the aggregation operator. The model names the parts the
  source touches: the byte at \<open>nullByte_\<close>, the accumulator object at \<open>offset_\<close>
  (\<open>None\<close> while none has been constructed there), the 32-bit counter at
  \<open>rowSizeOffset_\<close>, and the rest of the row, which belongs to the wrapped aggregate
  functions. The source's \<open>char*\<close> group pointers are indices into the list of all rows,
  so that two entries of a \<open>groups\<close> array may name the same row.
\<close>

record ('acc, 'st) GroupRow =
  nullFlags :: byte
  accumulator :: "'acc option"
  rowSize :: "32 word"
  fnState :: 'st

definition getRow :: "'r list \<Rightarrow> nat \<Rightarrow> error + 'r" where
  "getRow rows g = (if g < length rows then Inr (rows ! g) else Inl OutOfRange)"

definition getAccumulator :: "('acc, 'st) GroupRow \<Rightarrow> error + 'acc" where
  "getAccumulator row = (case accumulator row of None \<Rightarrow> Inl NotConstructed | Some acc \<Rightarrow> Inr acc)"

text \<open>
  The null flag of the distinct-accumulator slot, as the source names it: the bits
  \<open>nullMask_\<close> of the byte at \<open>nullByte_\<close>. The slot is null when its null flag is
  set.
\<close>

definition isNull :: "byte \<Rightarrow> ('acc, 'st) GroupRow \<Rightarrow> bool" where
  "isNull nullMask row = (nullFlags row AND nullMask \<noteq> 0)"

subsection \<open>The collaborators\<close>

text \<open>
  The uniqueness set \<open>SetAccumulator<T>\<close> (velox/exec/SetAccumulator.h) is not among
  the source files; the operations the source calls are taken as parameters, over any
  accumulator state \<open>'acc\<close> and any allocator state \<open>'al\<close>. \<open>sa_extractForSpill\<close>
  gives the bytes written into the buffer handed to it (their number is what the call
  returns); \<open>al_currentBytes\<close> is the allocator's byte count that \<open>RowSizeTracker\<close> reads.
\<close>

record ('al, 'acc, 'a) SetAccumulatorOps =
  sa_construct :: "velox_type \<Rightarrow> 'acc"
  sa_addValue :: "'a cell \<Rightarrow> 'acc \<Rightarrow> 'al \<Rightarrow> 'acc \<times> 'al"
  sa_addFromSpill :: "byte list list \<Rightarrow> 'acc \<Rightarrow> 'al \<Rightarrow> 'acc \<times> 'al"
  sa_size :: "'acc \<Rightarrow> nat"
  sa_extractValues :: "'acc \<Rightarrow> 'a cell list"
  sa_maxSpillSize :: "'acc \<Rightarrow> nat"
  sa_extractForSpill :: "'acc \<Rightarrow> nat \<Rightarrow> byte list"
  sa_clear :: "'acc \<Rightarrow> 'al \<Rightarrow> 'acc \<times> 'al"
  sa_free :: "'acc \<Rightarrow> 'al \<Rightarrow> 'acc \<times> 'al"
  al_currentBytes :: "'al \<Rightarrow> nat"

text \<open>
  A wrapped aggregate function (\<open>aggregate.function\<close>): the four operations the source
  calls, acting on the rows through the group pointers handed to them.
\<close>

record ('row, 'a, 'r) AggregateFn =
  fn_initializeNewGroups :: "'row list \<Rightarrow> nat list \<Rightarrow> nat list \<Rightarrow> 'row list"
  fn_addSingleGroupRawInput :: "'row list \<Rightarrow> nat \<Rightarrow> nat list \<Rightarrow> 'a cell list list \<Rightarrow> bool \<Rightarrow> 'row list"
  fn_extractValues :: "'row list \<Rightarrow> nat list \<Rightarrow> 'r list"
  fn_destroy :: "'row list \<Rightarrow> nat list \<Rightarrow> 'row list"

text \<open>
  Modelled from the spec: \<open>RowSizeTracker\<close> is not among the source files. The spec has
  it attribute every byte the accumulator allocates to the group row; the counter is
  unsigned, 32 bits wide, and saturates.
\<close>

definition saturatingIncrement :: "32 word \<Rightarrow> nat \<Rightarrow> 32 word" where
  "saturatingIncrement counter delta =
     (if uint counter + int delta < 2 ^ 32 then counter + of_nat delta else - 1)"

definition trackRowSize ::
  "('al, 'acc, 'a) SetAccumulatorOps \<Rightarrow> 'al \<Rightarrow> 'al \<Rightarrow> ('acc, 'st) GroupRow \<Rightarrow> ('acc, 'st) GroupRow" where
  "trackRowSize ops al0 al1 row =
     row\<lparr>rowSize := saturatingIncrement (rowSize row)
                        (al_currentBytes ops al1 - al_currentBytes ops al0)\<rparr>"

subsection \<open>The operations of TypedDistinctAggregations\<close>

text \<open>
  \<open>initializeNewGroups\<close>, first loop: for each index, set the null flag of the row
  and construct a new accumulator in it.
\<close>

fun initAccumulators ::
  "('al, 'acc, 'a) SetAccumulatorOps \<Rightarrow> velox_type \<Rightarrow> byte \<Rightarrow> ('acc, 'st) GroupRow list \<Rightarrow>
     nat list \<Rightarrow> nat list \<Rightarrow> error + ('acc, 'st) GroupRow list" where
  "initAccumulators ops inputType nullMask rows groups [] = Inr rows"
| "initAccumulators ops inputType nullMask rows groups (i # indices) =
     (if i < length groups \<and> groups ! i < length rows
      then initAccumulators ops inputType nullMask
             (rows[groups ! i :=
                (rows ! (groups ! i))\<lparr>nullFlags := nullFlags (rows ! (groups ! i)) OR nullMask,
                                       accumulator := Some (sa_construct ops inputType)\<rparr>])
             groups indices
      else Inl OutOfRange)"

text \<open>Second loop: every wrapped aggregate function initializes the same groups.\<close>

fun forwardInitialize ::
  "(('row, 'a, 'r) AggregateFn) AggregateInfo list \<Rightarrow> 'row list \<Rightarrow> nat list \<Rightarrow> nat list \<Rightarrow> 'row list" where
  "forwardInitialize [] rows groups indices = rows"
| "forwardInitialize (aggregate # rest) rows groups indices =
     forwardInitialize rest (fn_initializeNewGroups (func aggregate) rows groups indices) groups indices"

definition initializeNewGroups ::
  "('al, 'acc, 'a) SetAccumulatorOps \<Rightarrow>
   ((('acc, 'st) GroupRow, 'a, 'r) AggregateFn) TypedDistinctAggregations \<Rightarrow> byte \<Rightarrow>
   ('acc, 'st) GroupRow list \<Rightarrow> nat list \<Rightarrow> nat list \<Rightarrow> error + ('acc, 'st) GroupRow list" where
  "initializeNewGroups ops tda nullMask rows groups indices =
     (case initAccumulators ops (tda_inputType tda) nullMask rows groups indices of
        Inl e \<Rightarrow> Inl e
      | Inr rows1 \<Rightarrow> Inr (forwardInitialize (tda_aggregates tda) rows1 groups indices))"

definition isSingleInputAggregate :: "'f TypedDistinctAggregations \<Rightarrow> bool" where
  "isSingleInputAggregate tda = (length (inputs (tda_aggregates tda ! 0)) = 1)"

fun childrenAt :: "'a RowVector \<Rightarrow> nat list \<Rightarrow> error + 'a cell list list" where
  "childrenAt input [] = Inr []"
| "childrenAt input (c # cs) =
     (case rv_childAt input c of
        Inl e \<Rightarrow> Inl e
      | Inr child \<Rightarrow>
         (case childrenAt input cs of Inl e \<Rightarrow> Inl e | Inr rest \<Rightarrow> Inr (child # rest)))"

definition makeInputForAccumulator ::
  "'f TypedDistinctAggregations \<Rightarrow> 'a RowVector \<Rightarrow> error + 'a cell list" where
  "makeInputForAccumulator tda input =
     (if isSingleInputAggregate tda then rv_childAt input (tda_inputs tda ! 0)
      else (case childrenAt input (tda_inputs tda) of
              Inl e \<Rightarrow> Inl e
            | Inr newChildren \<Rightarrow> Inr (makeRowCells (rv_size input) newChildren)))"

definition makeInputForAggregation ::
  "'f TypedDistinctAggregations \<Rightarrow> 'a cell list \<Rightarrow> 'a cell list list" where
  "makeInputForAggregation tda input =
     (if isSingleInputAggregate tda then [input]
      else rowChildren (length (tda_inputs tda)) input)"

text \<open>
  \<open>addInput\<close>: \<open>rows.applyToSelected\<close> visits the selected row numbers in order
  (\<open>selected\<close>); row \<open>i\<close> of the batch goes to the group \<open>groups[i]\<close>, with a
  \<open>RowSizeTracker\<close> around each insertion. \<open>allRows\<close> is the list of all group rows.
\<close>

fun addInputLoop ::
  "('al, 'acc, 'a) SetAccumulatorOps \<Rightarrow> 'a cell list \<Rightarrow> nat list \<Rightarrow>
     ('acc, 'st) GroupRow list \<Rightarrow> 'al \<Rightarrow> nat list \<Rightarrow> error + ('acc, 'st) GroupRow list \<times> 'al" where
  "addInputLoop ops decodedInput groups allRows al [] = Inr (allRows, al)"
| "addInputLoop ops decodedInput groups allRows al (i # selected) =
     (if \<not> (i < length groups \<and> i < length decodedInput) then Inl OutOfRange
      else (case getRow allRows (groups ! i) of
              Inl e \<Rightarrow> Inl e
            | Inr row \<Rightarrow>
               (case getAccumulator row of
                  Inl e \<Rightarrow> Inl e
                | Inr acc \<Rightarrow>
                   (let (acc1, al1) = sa_addValue ops (decodedInput ! i) acc al;
                        row1 = trackRowSize ops al al1 (row\<lparr>accumulator := Some acc1\<rparr>)
                    in addInputLoop ops decodedInput groups (allRows[groups ! i := row1]) al1 selected))))"

definition addInput ::
  "('al, 'acc, 'a) SetAccumulatorOps \<Rightarrow> 'f TypedDistinctAggregations \<Rightarrow>
     ('acc, 'st) GroupRow list \<Rightarrow> 'al \<Rightarrow> nat list \<Rightarrow> 'a RowVector \<Rightarrow> nat list \<Rightarrow>
     error + ('acc, 'st) GroupRow list \<times> 'al" where
  "addInput ops tda allRows al groups input selected =
     (case makeInputForAccumulator tda input of
        Inl e \<Rightarrow> Inl e
      | Inr decodedInput \<Rightarrow> addInputLoop ops decodedInput groups allRows al selected)"

text \<open>\<open>addSingleGroupInput\<close>: one group, one \<open>RowSizeTracker\<close> around the whole loop.\<close>

fun addValues ::
  "('al, 'acc, 'a) SetAccumulatorOps \<Rightarrow> 'a cell list \<Rightarrow> 'acc \<Rightarrow> 'al \<Rightarrow> nat list \<Rightarrow> error + 'acc \<times> 'al" where
  "addValues ops decodedInput acc al [] = Inr (acc, al)"
| "addValues ops decodedInput acc al (i # selected) =
     (if \<not> i < length decodedInput then Inl OutOfRange
      else (let (acc1, al1) = sa_addValue ops (decodedInput ! i) acc al
            in addValues ops decodedInput acc1 al1 selected))"

definition addSingleGroupInput ::
  "('al, 'acc, 'a) SetAccumulatorOps \<Rightarrow> 'f TypedDistinctAggregations \<Rightarrow>
     ('acc, 'st) GroupRow list \<Rightarrow> 'al \<Rightarrow> nat \<Rightarrow> 'a RowVector \<Rightarrow> nat list \<Rightarrow>
     error + ('acc, 'st) GroupRow list \<times> 'al" where
  "addSingleGroupInput ops tda allRows al grp input selected =
     (case makeInputForAccumulator tda input of
        Inl e \<Rightarrow> Inl e
      | Inr decodedInput \<Rightarrow>
         (case getRow allRows grp of
            Inl e \<Rightarrow> Inl e
          | Inr row \<Rightarrow>
             (case getAccumulator row of
                Inl e \<Rightarrow> Inl e
              | Inr acc \<Rightarrow>
                 (case addValues ops decodedInput acc al selected of
                    Inl e \<Rightarrow> Inl e
                  | Inr (acc1, al1) \<Rightarrow>
                      Inr (allRows[grp := trackRowSize ops al al1 (row\<lparr>accumulator := Some acc1\<rparr>)],
                           al1)))))"

text \<open>
  \<open>addSingleGroupSpillInput\<close>: the size and the offset of the indicated array cell are
  read, and the whole elements vector is handed to \<open>addFromSpill\<close>.
\<close>

definition addSingleGroupSpillInput ::
  "('al, 'acc, 'a) SetAccumulatorOps \<Rightarrow> ('acc, 'st) GroupRow list \<Rightarrow> 'al \<Rightarrow> nat \<Rightarrow>
     ArrayVector \<Rightarrow> nat \<Rightarrow> error + ('acc, 'st) GroupRow list \<times> 'al" where
  "addSingleGroupSpillInput ops allRows al grp input index =
     (let elementsVector = av_elements input
      in (case sizeAt input index of
            Inl e \<Rightarrow> Inl e
          | Inr cellSize \<Rightarrow>
             (case offsetAt input index of
                Inl e \<Rightarrow> Inl e
              | Inr cellOffset \<Rightarrow>
                 (case getRow allRows grp of
                    Inl e \<Rightarrow> Inl e
                  | Inr row \<Rightarrow>
                     (case getAccumulator row of
                        Inl e \<Rightarrow> Inl e
                      | Inr acc \<Rightarrow>
                         (let (acc1, al1) = sa_addFromSpill ops elementsVector acc al
                          in Inr (allRows[grp := row\<lparr>accumulator := Some acc1\<rparr>], al1)))))))"

text \<open>
  \<open>extractValues\<close>, inner loop: each group's distinct values are fed to the wrapped
  function's raw-input path, with all rows of the temporary vector selected.
\<close>

fun feedGroups ::
  "('al, 'acc, 'a) SetAccumulatorOps \<Rightarrow>
   ((('acc, 'st) GroupRow, 'a, 'r) AggregateFn) TypedDistinctAggregations \<Rightarrow>
   (('acc, 'st) GroupRow, 'a, 'r) AggregateFn \<Rightarrow> ('acc, 'st) GroupRow list \<Rightarrow> nat list \<Rightarrow>
     error + ('acc, 'st) GroupRow list" where
  "feedGroups ops tda f allRows [] = Inr allRows"
| "feedGroups ops tda f allRows (grp # groups) =
     (case getRow allRows grp of
        Inl e \<Rightarrow> Inl e
      | Inr row \<Rightarrow>
         (case getAccumulator row of
            Inl e \<Rightarrow> Inl e
          | Inr acc \<Rightarrow>
             (let data = take (sa_size ops acc) (sa_extractValues ops acc);
                  selected = [0..<length data];
                  inputForAggregation = makeInputForAggregation tda data
              in feedGroups ops tda f
                   (fn_addSingleGroupRawInput f allRows grp selected inputForAggregation False)
                   groups)))"

text \<open>
  Outer loop: for each aggregate, feed the groups, extract the function's values into the
  result's child at \<open>aggregate.output\<close>, and destroy the function's group state.
\<close>

fun extractLoop ::
  "('al, 'acc, 'a) SetAccumulatorOps \<Rightarrow>
   ((('acc, 'st) GroupRow, 'a, 'r) AggregateFn) TypedDistinctAggregations \<Rightarrow>
   ((('acc, 'st) GroupRow, 'a, 'r) AggregateFn) AggregateInfo list \<Rightarrow>
   ('acc, 'st) GroupRow list \<Rightarrow> nat list \<Rightarrow> 'r list list \<Rightarrow>
     error + ('acc, 'st) GroupRow list \<times> 'r list list" where
  "extractLoop ops tda [] allRows groups result = Inr (allRows, result)"
| "extractLoop ops tda (aggregate # rest) allRows groups result =
     (case feedGroups ops tda (func aggregate) allRows groups of
        Inl e \<Rightarrow> Inl e
      | Inr rows1 \<Rightarrow>
         (if \<not> agg_output aggregate < length result then Inl OutOfRange
          else extractLoop ops tda rest
                 (fn_destroy (func aggregate) rows1 groups) groups
                 (result[agg_output aggregate := fn_extractValues (func aggregate) rows1 groups])))"

definition extractValues ::
  "('al, 'acc, 'a) SetAccumulatorOps \<Rightarrow>
   ((('acc, 'st) GroupRow, 'a, 'r) AggregateFn) TypedDistinctAggregations \<Rightarrow>
   ('acc, 'st) GroupRow list \<Rightarrow> nat list \<Rightarrow> 'r list list \<Rightarrow>
     error + ('acc, 'st) GroupRow list \<times> 'r list list" where
  "extractValues ops tda allRows groups result =
     extractLoop ops tda (tda_aggregates tda) allRows groups result"

text \<open>
  \<open>extractForSpill\<close>, first loop: the sizes and offsets of the array cells, from each
  accumulator's \<open>maxSpillSize\<close>. The state is \<open>rawSizes\<close>, \<open>rawOffsets\<close>,
  \<open>totalBytes\<close> and \<open>offset\<close>; the 32-bit width of \<open>vector_size_t\<close> is not modelled.
\<close>

fun spillSizes ::
  "('al, 'acc, 'a) SetAccumulatorOps \<Rightarrow> ('acc, 'st) GroupRow list \<Rightarrow> nat list \<Rightarrow>
     nat list \<times> nat list \<times> nat \<times> nat \<Rightarrow> error + nat list \<times> nat list \<times> nat \<times> nat" where
  "spillSizes ops allRows [] st = Inr st"
| "spillSizes ops allRows (grp # groups) (rawSizes, rawOffsets, totalBytes, offset) =
     (case getRow allRows grp of
        Inl e \<Rightarrow> Inl e
      | Inr row \<Rightarrow>
         (case getAccumulator row of
            Inl e \<Rightarrow> Inl e
          | Inr acc \<Rightarrow>
              spillSizes ops allRows groups
                (rawSizes @ [sa_maxSpillSize ops acc], rawOffsets @ [offset],
                 totalBytes + sa_maxSpillSize ops acc, offset + sa_maxSpillSize ops acc)))"

text \<open>
  Second loop: each accumulator writes its bytes at \<open>rawBuffer + offset\<close> and is then
  cleared. \<open>rawBuffer\<close> is what has been written so far, so \<open>offset\<close> is its length.
\<close>

fun spillGroups ::
  "('al, 'acc, 'a) SetAccumulatorOps \<Rightarrow> nat \<Rightarrow> ('acc, 'st) GroupRow list \<Rightarrow> 'al \<Rightarrow>
     byte list \<Rightarrow> nat list \<Rightarrow> error + ('acc, 'st) GroupRow list \<times> 'al \<times> byte list" where
  "spillGroups ops totalBytes allRows al rawBuffer [] = Inr (allRows, al, rawBuffer)"
| "spillGroups ops totalBytes allRows al rawBuffer (grp # groups) =
     (case getRow allRows grp of
        Inl e \<Rightarrow> Inl e
      | Inr row \<Rightarrow>
         (case getAccumulator row of
            Inl e \<Rightarrow> Inl e
          | Inr acc \<Rightarrow>
             (let offset = length rawBuffer;
                  bytes = sa_extractForSpill ops acc (totalBytes - offset);
                  (acc1, al1) = sa_clear ops acc al
              in spillGroups ops totalBytes (allRows[grp := row\<lparr>accumulator := Some acc1\<rparr>]) al1
                   (rawBuffer @ bytes) groups)))"

text \<open>
  \<open>extractForSpill\<close>: the array vector is resized to the number of groups and its
  elements vector to one string, the bytes of all the groups one after the other.
\<close>

definition extractForSpill ::
  "('al, 'acc, 'a) SetAccumulatorOps \<Rightarrow> ('acc, 'st) GroupRow list \<Rightarrow> 'al \<Rightarrow> nat list \<Rightarrow>
     ArrayVector \<Rightarrow> error + ('acc, 'st) GroupRow list \<times> 'al \<times> ArrayVector" where
  "extractForSpill ops allRows al groups result =
     (case spillSizes ops allRows groups ([], [], 0, 0) of
        Inl e \<Rightarrow> Inl e
      | Inr (rawSizes, rawOffsets, totalBytes, offset) \<Rightarrow>
         (case spillGroups ops totalBytes allRows al [] groups of
            Inl e \<Rightarrow> Inl e
          | Inr (rows1, al1, rawBuffer) \<Rightarrow>
              Inr (rows1, al1,
                   result\<lparr>av_offsets := rawOffsets, av_sizes := rawSizes,
                          av_elements := [rawBuffer]\<rparr>)))"

text \<open>The \<open>destroy\<close> closure of \<open>accumulator()\<close>: every group's accumulator is freed.\<close>

fun freeGroups ::
  "('al, 'acc, 'a) SetAccumulatorOps \<Rightarrow> ('acc, 'st) GroupRow list \<Rightarrow> 'al \<Rightarrow> nat list \<Rightarrow>
     error + ('acc, 'st) GroupRow list \<times> 'al" where
  "freeGroups ops allRows al [] = Inr (allRows, al)"
| "freeGroups ops allRows al (grp # groups) =
     (case getRow allRows grp of
        Inl e \<Rightarrow> Inl e
      | Inr row \<Rightarrow>
         (case getAccumulator row of
            Inl e \<Rightarrow> Inl e
          | Inr acc \<Rightarrow>
             (let (acc1, al1) = sa_free ops acc al
              in freeGroups ops (allRows[grp := row\<lparr>accumulator := Some acc1\<rparr>]) al1 groups)))"

subsection \<open>Vocabulary for the properties of the group operations\<close>

text \<open>Every group pointer names a row that holds a constructed accumulator.\<close>

definition validGroups :: "('acc, 'st) GroupRow list \<Rightarrow> nat list \<Rightarrow> bool" where
  "validGroups allRows groups =
     list_all (\<lambda>g. g < length allRows \<and> accumulator (allRows ! g) \<noteq> None) groups"

text \<open>Every index names an entry of \<open>groups\<close>, and that entry names a row.\<close>

definition validIndices :: "'row list \<Rightarrow> nat list \<Rightarrow> nat list \<Rightarrow> bool" where
  "validIndices allRows groups indices =
     list_all (\<lambda>i. i < length groups \<and> groups ! i < length allRows) indices"

subsection \<open>Sample collaborators and a sample run\<close>

text \<open>
  Modelled from the spec: a uniqueness set over 64-bit integers, for the sample runs.
  \<open>SetAccumulator\<close> is not among the source files; the spec has it track which values
  were already seen for a group, keyed by value equality, and spill every element in the
  record shape of the value store, hash first, the records back to back. The sample keeps
  the distinct values in insertion order, counts 16 allocated bytes for each, writes each
  as the 8 bytes of its hash and the 8 bytes of its value, and on restore inserts every
  record of every string it is given.
\<close>

fun serializeCell :: "64 word cell \<Rightarrow> byte list" where
  "serializeCell (Cell w) = toBytes 8 (exHash w) @ toBytes 8 w"
| "serializeCell (RowCell fs) = []"

function parseRecords :: "byte list \<Rightarrow> 64 word cell list" where
  "parseRecords bs =
     (if length bs < 16 then []
      else Cell (fromBytes (take 8 (drop 8 bs))) # parseRecords (drop 16 bs))"
  by pat_completeness auto
termination
  by (relation "measure length") auto

definition lsAddValue :: "64 word cell \<Rightarrow> 64 word cell list \<Rightarrow> nat \<Rightarrow> 64 word cell list \<times> nat" where
  "lsAddValue v acc al = (if List.member acc v then (acc, al) else (acc @ [v], al + 16))"

definition listSetOps :: "(nat, 64 word cell list, 64 word) SetAccumulatorOps" where
  "listSetOps =
     \<lparr>sa_construct = (\<lambda>ty. []),
      sa_addValue = lsAddValue,
      sa_addFromSpill = (\<lambda>strings acc al.
         fold (\<lambda>v (acc1, al1). lsAddValue v acc1 al1) (concat (map parseRecords strings)) (acc, al)),
      sa_size = length,
      sa_extractValues = (\<lambda>acc. acc),
      sa_maxSpillSize = (\<lambda>acc. 16 * length acc),
      sa_extractForSpill = (\<lambda>acc capacity. concat (map serializeCell acc)),
      sa_clear = (\<lambda>acc al. ([], al - 16 * length acc)),
      sa_free = (\<lambda>acc al. ([], al - 16 * length acc)),
      al_currentBytes = (\<lambda>al. al)\<rparr>"

text \<open>The wrapped aggregate of the sample runs: \<open>count\<close>, its state the number of rows fed.\<close>

definition countFn :: "((64 word cell list, nat) GroupRow, 64 word, nat) AggregateFn" where
  "countFn =
     \<lparr>fn_initializeNewGroups = (\<lambda>rows groups indices.
         fold (\<lambda>i rs. rs[groups ! i := (rs ! (groups ! i))\<lparr>fnState := 0\<rparr>]) indices rows),
      fn_addSingleGroupRawInput = (\<lambda>rows g sel args mayPushdown.
         rows[g := (rows ! g)\<lparr>fnState := fnState (rows ! g) + length sel\<rparr>]),
      fn_extractValues = (\<lambda>rows groups. map (\<lambda>g. fnState (rows ! g)) groups),
      fn_destroy = (\<lambda>rows groups. rows)\<rparr>"

definition exTda ::
  "(((64 word cell list, nat) GroupRow, 64 word, nat) AggregateFn) TypedDistinctAggregations" where
  "exTda = \<lparr>tda_T = T_int64, tda_aggregates = [\<lparr>func = countFn, inputs = [0], agg_output = 0\<rparr>],
            tda_inputs = [0], tda_inputType = VType BIGINT []\<rparr>"

text \<open>A row before initialization, and a row after it when the null mask is 1.\<close>

definition rawRow :: "(64 word cell list, nat) GroupRow" where
  "rawRow = \<lparr>nullFlags = 0, accumulator = None, rowSize = 0, fnState = 0\<rparr>"

definition newRow :: "(64 word cell list, nat) GroupRow" where
  "newRow = \<lparr>nullFlags = 1, accumulator = Some [], rowSize = 0, fnState = 0\<rparr>"

text \<open>
  The sample batch: one column of 64-bit integers. Rows 0 to 3 (5, 5, 7, 5) go to group
  A, row 4 (7) goes to group B; \<open>exRows\<close> are the two group rows after \<open>addInput\<close>.
\<close>

definition exInput :: "64 word RowVector" where
  "exInput = \<lparr>rv_size = 5, rv_children = [[Cell 5, Cell 5, Cell 7, Cell 5, Cell 7]]\<rparr>"

definition exRows :: "(64 word cell list, nat) GroupRow list" where
  "exRows = [\<lparr>nullFlags = 1, accumulator = Some [Cell 5, Cell 7], rowSize = 32, fnState = 0\<rparr>,
             \<lparr>nullFlags = 1, accumulator = Some [Cell 7], rowSize = 16, fnState = 0\<rparr>]"

definition exRowsCleared :: "(64 word cell list, nat) GroupRow list" where
  "exRowsCleared = [\<lparr>nullFlags = 1, accumulator = Some [], rowSize = 32, fnState = 0\<rparr>,
             \<lparr>nullFlags = 1, accumulator = Some [], rowSize = 16, fnState = 0\<rparr>]"

definition emptyColumn :: ArrayVector where
  "emptyColumn = \<lparr>av_offsets = [], av_sizes = [], av_elements = []\<rparr>"

text \<open>The spill column \<open>extractForSpill\<close> produces for the two groups together.\<close>

definition exSpillColumn :: ArrayVector where
  "exSpillColumn = \<lparr>av_offsets = [0, 32], av_sizes = [32, 16],
      av_elements = [[162, 0, 0, 0, 0, 0, 0, 0, 5, 0, 0, 0, 0, 0, 0, 0,
                      224, 0, 0, 0, 0, 0, 0, 0, 7, 0, 0, 0, 0, 0, 0, 0,
                      224, 0, 0, 0, 0, 0, 0, 0, 7, 0, 0, 0, 0, 0, 0, 0]]\<rparr>"

text \<open>The two groups built by \<open>initializeNewGroups\<close> and \<open>addInput\<close>.\<close>

definition exBuilt :: "error + (64 word cell list, nat) GroupRow list \<times> nat" where
  "exBuilt =
     (case initializeNewGroups listSetOps exTda 1 [rawRow, rawRow] [0, 1] [0, 1] of
        Inl e \<Rightarrow> Inl e
      | Inr rows \<Rightarrow> addInput listSetOps exTda rows 0 [0, 0, 0, 0, 1] exInput [0, 1, 2, 3, 4])"

text \<open>The result column of \<open>extractValues\<close> on the two groups, never spilled.\<close>

definition unspilledResult :: "error + nat list list" where
  "unspilledResult =
     (case exBuilt of
        Inl e \<Rightarrow> Inl e
      | Inr (rows, al) \<Rightarrow>
         (case extractValues listSetOps exTda rows [0, 1] [[]] of
            Inl e \<Rightarrow> Inl e
          | Inr (rows1, result) \<Rightarrow> Inr result))"

text \<open>
  The same after a spill: \<open>extractForSpill\<close> over the two groups, then each group
  restored into a newly initialized row by \<open>addSingleGroupSpillInput\<close> with the spill
  column and the group's own row index, then \<open>extractValues\<close>.
\<close>

definition restoredResult :: "error + nat list list" where
  "restoredResult =
     (case exBuilt of
        Inl e \<Rightarrow> Inl e
      | Inr (rows, al) \<Rightarrow>
         (case extractForSpill listSetOps rows al [0, 1] emptyColumn of
            Inl e \<Rightarrow> Inl e
          | Inr (rows1, al1, spill) \<Rightarrow>
             (case initializeNewGroups listSetOps exTda 1 [rawRow, rawRow] [0, 1] [0, 1] of
                Inl e \<Rightarrow> Inl e
              | Inr fresh \<Rightarrow>
                 (case addSingleGroupSpillInput listSetOps fresh al1 0 spill 0 of
                    Inl e \<Rightarrow> Inl e
                  | Inr (rows2, al2) \<Rightarrow>
                     (case addSingleGroupSpillInput listSetOps rows2 al2 1 spill 1 of
                        Inl e \<Rightarrow> Inl e
                      | Inr (rows3, al3) \<Rightarrow>
                         (case extractValues listSetOps exTda rows3 [0, 1] [[]] of
                            Inl e \<Rightarrow> Inl e
                          | Inr (rows4, result) \<Rightarrow> Inr result))))))"

section \<open>Properties of the factory\<close>

lemma collectFields_in_range:
  "channelsInRange rowType ins \<Longrightarrow> \<exists>fs. collectFields rowType ins = Inr fs"
  by (induction ins) (auto simp: channelsInRange_def nameOf_def childAt_def)

lemma collectFields_error:
  "collectFields rowType ins = Inl e \<Longrightarrow> e = OutOfRange"
  by (induction ins arbitrary: e) (auto simp: nameOf_def childAt_def split: if_splits sum.splits)

lemma makeInputType_in_range:
  "channelsInRange rowType ins \<Longrightarrow> ins \<noteq> [] \<Longrightarrow> \<exists>t. makeInputTypeForAccumulator rowType ins = Inr t"
  using collectFields_in_range[of rowType ins]
  by (cases ins) (auto simp: makeInputTypeForAccumulator_def channelsInRange_def childAt_def)

lemma construct_in_range:
  "channelsInRange rowType (inputs (aggregates ! 0)) \<Longrightarrow> inputs (aggregates ! 0) \<noteq> [] \<Longrightarrow>
   \<exists>d. construct T aggregates rowType = Inr d \<and> tda_T d = T \<and> tda_aggregates d = aggregates
       \<and> tda_inputs d = inputs (aggregates ! 0)"
  using makeInputType_in_range[of rowType "inputs (aggregates ! 0)"]
  by (auto simp: construct_def)

lemma construct_error: "construct T aggregates rowType = Inl e \<Longrightarrow> e = OutOfRange"
  by (auto simp: construct_def makeInputTypeForAccumulator_def childAt_def
           split: sum.splits if_splits dest: collectFields_error)

lemma construct_T: "construct T aggregates rowType = Inr d \<Longrightarrow> tda_T d = T"
  by (auto simp: construct_def split: sum.splits)

lemma dispatch_supported: "List.member supportedKinds k \<Longrightarrow> \<exists>T. dispatch k = Inr T"
  by (cases k) (simp_all add: supportedKinds_def)

lemma dispatch_error: "dispatch k = Inl e \<Longrightarrow> e = Unreachable"
  by (cases k) simp_all

text \<open>
  C6. \<open>DistinctAggregations::create\<close> fails its construction-time check exactly when
  it is given no aggregate specification, more than one, or one whose declared input list
  is empty; given exactly one specification with at least one declared input it succeeds,
  for supported inputs (the channels name columns of the input type and a sole input
  column has a kind the factory handles).
\<close>

theorem create_contract:
  "(length aggregates \<noteq> 1 \<longrightarrow> create aggregates inputType = Inl CheckFailed) \<and>
   (length aggregates = 1 \<and> inputs (aggregates ! 0) = [] \<longrightarrow>
      create aggregates inputType = Inl CheckFailed) \<and>
   (length aggregates = 1 \<and> inputs (aggregates ! 0) \<noteq> [] \<and>
      supportedInputs inputType (inputs (aggregates ! 0)) \<longrightarrow>
      (\<exists>d. create aggregates inputType = Inr d)) \<and>
   (create aggregates inputType = Inl CheckFailed \<longleftrightarrow>
      length aggregates \<noteq> 1 \<or> inputs (aggregates ! 0) = [])"
proof (intro conjI impI)
  show "length aggregates \<noteq> 1 \<Longrightarrow> create aggregates inputType = Inl CheckFailed"
    by (simp add: create_def)
  show "length aggregates = 1 \<and> inputs (aggregates ! 0) = [] \<Longrightarrow>
      create aggregates inputType = Inl CheckFailed"
    by (simp add: create_def)
  show "\<exists>d. create aggregates inputType = Inr d"
    if h: "length aggregates = 1 \<and> inputs (aggregates ! 0) \<noteq> [] \<and>
      supportedInputs inputType (inputs (aggregates ! 0))"
  proof (cases "length (inputs (aggregates ! 0)) = 1")
    case False
    with h construct_in_range[of inputType aggregates T_ComplexType] show ?thesis
      by (auto simp: create_def supportedInputs_def)
  next
    case True
    from h True have rng: "channelsInRange inputType (inputs (aggregates ! 0))"
      and sk: "List.member supportedKinds (kind (snd (typeFields inputType ! (inputs (aggregates ! 0) ! 0))))"
      by (simp_all add: supportedInputs_def)
    from True rng have lt: "inputs (aggregates ! 0) ! 0 < length (typeFields inputType)"
      by (cases "inputs (aggregates ! 0)") (simp_all add: channelsInRange_def)
    from dispatch_supported[OF sk] obtain T where
      T: "dispatch (kind (snd (typeFields inputType ! (inputs (aggregates ! 0) ! 0)))) = Inr T" ..
    from construct_in_range[OF rng, of T] h obtain d where
      "construct T aggregates inputType = Inr d" by blast
    with h True lt T show ?thesis
      by (simp add: create_def childAt_def)
  qed
  show "create aggregates inputType = Inl CheckFailed \<longleftrightarrow>
      length aggregates \<noteq> 1 \<or> inputs (aggregates ! 0) = []"
    by (auto simp: create_def childAt_def split: sum.splits if_splits
             dest: construct_error dispatch_error)
qed

theorem create_contract_witness:
  "create ([] :: unit AggregateInfo list) exRowType = Inl CheckFailed \<and>
   create [exAgg [0], exAgg [1]] exRowType = Inl CheckFailed \<and>
   create [exAgg []] exRowType = Inl CheckFailed \<and>
   (\<exists>d. create [exAgg [0]] exRowType = Inr d) \<and>
   (\<exists>d. create [exAgg [0, 1]] exRowType = Inr d)"
  using create_contract[of "[] :: unit AggregateInfo list" exRowType]
        create_contract[of "[exAgg [0], exAgg [1]]" exRowType]
        create_contract[of "[exAgg []]" exRowType]
        create_contract[of "[exAgg [0]]" exRowType]
        create_contract[of "[exAgg [0, 1]]" exRowType]
  by (simp add: exAgg_def exRowType_def supportedInputs_def channelsInRange_def supportedKinds_def)

lemma selected_multi:
  assumes "length aggregates = 1" "channelsInRange inputType (inputs (aggregates ! 0))"
    "1 < length (inputs (aggregates ! 0))"
  shows "selectedSpecialization aggregates inputType = Some T_ComplexType"
proof -
  from assms have ne: "inputs (aggregates ! 0) \<noteq> []" by auto
  from construct_in_range[OF assms(2) ne, of T_ComplexType] assms show ?thesis
    by (auto simp: selectedSpecialization_def create_def)
qed

lemma selected_single:
  assumes "length aggregates = 1" "channelsInRange inputType (inputs (aggregates ! 0))"
    "inputs (aggregates ! 0) = [c]"
    "dispatch (kind (snd (typeFields inputType ! c))) = Inr T"
  shows "selectedSpecialization aggregates inputType = Some T"
proof -
  from assms have ne: "inputs (aggregates ! 0) \<noteq> []" by auto
  from assms have lt: "c < length (typeFields inputType)" by (simp add: channelsInRange_def)
  from construct_in_range[OF assms(2) ne, of T] assms lt show ?thesis
    by (auto simp: selectedSpecialization_def create_def childAt_def)
qed

text \<open>
  C7. With exactly one declared input column the factory selects the specialization of
  that column's runtime type kind: boolean, the four integer widths, real, double,
  timestamp and varchar each get their own typed specialization, and a column of array,
  map or row kind gets the generic complex-element specialization. With more than one
  declared input column it selects that same generic specialization. The selection is made
  by \<open>create\<close> and stored in the constructed object.
\<close>

theorem create_type_dispatch:
  assumes "length aggregates = 1"
    and "channelsInRange inputType (inputs (aggregates ! 0))"
  shows "(inputs (aggregates ! 0) = [c] \<longrightarrow>
           (kind (snd (typeFields inputType ! c)) = BOOLEAN \<longrightarrow>
              selectedSpecialization aggregates inputType = Some T_bool) \<and>
           (kind (snd (typeFields inputType ! c)) = TINYINT \<longrightarrow>
              selectedSpecialization aggregates inputType = Some T_int8) \<and>
           (kind (snd (typeFields inputType ! c)) = SMALLINT \<longrightarrow>
              selectedSpecialization aggregates inputType = Some T_int16) \<and>
           (kind (snd (typeFields inputType ! c)) = INTEGER \<longrightarrow>
              selectedSpecialization aggregates inputType = Some T_int32) \<and>
           (kind (snd (typeFields inputType ! c)) = BIGINT \<longrightarrow>
              selectedSpecialization aggregates inputType = Some T_int64) \<and>
           (kind (snd (typeFields inputType ! c)) = REAL \<longrightarrow>
              selectedSpecialization aggregates inputType = Some T_float) \<and>
           (kind (snd (typeFields inputType ! c)) = DOUBLE \<longrightarrow>
              selectedSpecialization aggregates inputType = Some T_double) \<and>
           (kind (snd (typeFields inputType ! c)) = TIMESTAMP \<longrightarrow>
              selectedSpecialization aggregates inputType = Some T_Timestamp) \<and>
           (kind (snd (typeFields inputType ! c)) = VARCHAR \<longrightarrow>
              selectedSpecialization aggregates inputType = Some T_StringView) \<and>
           (kind (snd (typeFields inputType ! c)) = ARRAY \<longrightarrow>
              selectedSpecialization aggregates inputType = Some T_ComplexType) \<and>
           (kind (snd (typeFields inputType ! c)) = MAP \<longrightarrow>
              selectedSpecialization aggregates inputType = Some T_ComplexType) \<and>
           (kind (snd (typeFields inputType ! c)) = ROW \<longrightarrow>
              selectedSpecialization aggregates inputType = Some T_ComplexType)) \<and>
         (1 < length (inputs (aggregates ! 0)) \<longrightarrow>
            selectedSpecialization aggregates inputType = Some T_ComplexType)"
  using selected_multi[OF assms] selected_single[OF assms, of c]
  by simp

theorem create_type_dispatch_witness:
  "selectedSpecialization [exAgg [0]] exRowType = Some T_int64 \<and>
   selectedSpecialization [exAgg [1]] exRowType = Some T_StringView \<and>
   selectedSpecialization [exAgg [2]] exRowType = Some T_ComplexType \<and>
   selectedSpecialization [exAgg [0, 1]] exRowType = Some T_ComplexType"
  using create_type_dispatch[of "[exAgg [0]]" exRowType 0]
        create_type_dispatch[of "[exAgg [1]]" exRowType 1]
        create_type_dispatch[of "[exAgg [2]]" exRowType 2]
        create_type_dispatch[of "[exAgg [0, 1]]" exRowType 0]
  by (simp add: exAgg_def exRowType_def channelsInRange_def)

section \<open>Properties of the positioned value store\<close>

lemma length_toBytes: "length (toBytes n w) = n"
  by (induction n arbitrary: w) simp_all

lemma take_bit_split:
  "take_bit (8 + n) (w :: 64 word) = take_bit 8 w OR push_bit 8 (take_bit n (drop_bit 8 w))"
  by (rule bit_word_eqI) (auto simp: bit_simps)

lemma ucast_byte_take: "(ucast (ucast (w :: 64 word) :: byte) :: 64 word) = take_bit 8 w"
  by (rule bit_word_eqI) (auto simp: bit_simps)

lemma fromBytes_toBytes_take: "fromBytes (toBytes n w) = take_bit (8 * n) w"
proof (induction n arbitrary: w)
  case 0
  then show ?case by (simp add: fromBytes_def)
next
  case (Suc n)
  have "fromBytes (toBytes (Suc n) w) = take_bit 8 w OR push_bit 8 (fromBytes (toBytes n (drop_bit 8 w)))"
    by (simp add: fromBytes_def ucast_byte_take)
  also have "\<dots> = take_bit (8 + 8 * n) w"
    by (simp only: Suc.IH take_bit_split)
  finally show ?case by simp
qed

lemma fromBytes_toBytes: "fromBytes (toBytes 8 w) = w"
  by (simp add: fromBytes_toBytes_take take_bit_word_eq_self)

lemma wfPos_last:
  assumes "wfPos a p"
  obtains pre blk where "blocks a = pre @ [blk]" and "header p = length pre"
    and "position p \<le> length blk"
proof -
  from assms have ne: "blocks a \<noteq> []" and h: "header p = length (blocks a) - 1"
    and le: "position p \<le> length (blocks a ! header p)"
    by (auto simp: wfPos_def)
  from ne h have "blocks a ! header p = last (blocks a)" by (simp add: last_conv_nth)
  with ne have "blocks a = butlast (blocks a) @ [blocks a ! header p]" by simp
  moreover from h have "header p = length (butlast (blocks a))" by simp
  ultimately show thesis using le that by blast
qed

lemma appendByte_written:
  assumes "wfPos (arena s) (writePosition s)"
  shows "wfPos (arena (appendByte s b)) (writePosition (appendByte s b))"
    and "written (appendByte s b) = written s @ [b]"
    and "startPosition (appendByte s b) = startPosition s"
    and "prefix (map length (blocks (arena s))) (map length (blocks (arena (appendByte s b))))"
proof -
  from wfPos_last[OF assms] obtain pre blk where
    bl: "blocks (arena s) = pre @ [blk]" and hp: "header (writePosition s) = length pre"
    and le: "position (writePosition s) \<le> length blk" by blast
  have wr: "written s = concat pre @ take (position (writePosition s)) blk"
    by (simp add: written_def offsetOf_def bl hp)
  show "wfPos (arena (appendByte s b)) (writePosition (appendByte s b))"
    using le by (auto simp: appendByte_def wfPos_def Let_def bl hp nth_append)
  show "startPosition (appendByte s b) = startPosition s"
    by (simp add: appendByte_def Let_def)
  show "prefix (map length (blocks (arena s))) (map length (blocks (arena (appendByte s b))))"
    by (simp add: appendByte_def Let_def bl hp)
  show "written (appendByte s b) = written s @ [b]"
  proof (cases "position (writePosition s) < length blk")
    case True
    then show ?thesis
      by (simp add: appendByte_def Let_def written_def offsetOf_def bl hp take_Suc_conv_app_nth)
  next
    case False
    with le have eq: "position (writePosition s) = length blk" by simp
    then show ?thesis
      by (simp add: appendByte_def Let_def written_def offsetOf_def bl hp)
  qed
qed

lemma appendBytes_written:
  assumes "wfPos (arena s) (writePosition s)"
  shows "wfPos (arena (appendBytes s bs)) (writePosition (appendBytes s bs)) \<and>
         written (appendBytes s bs) = written s @ bs \<and>
         startPosition (appendBytes s bs) = startPosition s \<and>
         prefix (map length (blocks (arena s))) (map length (blocks (arena (appendBytes s bs))))"
  using assms
proof (induction bs arbitrary: s)
  case Nil
  then show ?case by simp
next
  case (Cons b bs)
  let ?s1 = "appendByte s b"
  note A = appendByte_written[OF Cons.prems, of b]
  note IH = Cons.IH[OF A(1)]
  from IH A(4) have "prefix (map length (blocks (arena s)))
      (map length (blocks (arena (appendBytes ?s1 bs))))"
    by (blast intro: prefix_order.trans)
  with IH A show ?case by simp
qed

lemma offsetOf_prefix:
  assumes "prefix (map length bl) (map length bl')" and "header p < length bl"
  shows "offsetOf bl' p = offsetOf bl p"
proof -
  from assms(1) obtain zs where zs: "map length bl' = map length bl @ zs"
    by (auto simp: prefix_def)
  have "length (concat (take (header p) bl')) = sum_list (take (header p) (map length bl'))"
    by (simp add: length_concat take_map)
  also have "\<dots> = sum_list (take (header p) (map length bl))"
    using assms(2) by (simp add: zs)
  also have "\<dots> = length (concat (take (header p) bl))"
    by (simp add: length_concat take_map)
  finally show ?thesis by (simp add: offsetOf_def)
qed

lemma remaining_prepareRead:
  "remaining (prepareRead a p False) = drop (offsetOf (blocks a) p) (concat (blocks a))"
proof -
  have "concat (blocks a) = concat (take (header p) (blocks a)) @ concat (drop (header p) (blocks a))"
    by (metis append_take_drop_id concat_append)
  then have "drop (offsetOf (blocks a) p) (concat (blocks a)) =
        drop (position p) (concat (drop (header p) (blocks a)))"
    by (simp add: offsetOf_def add.commute[of _ "position p"] flip: drop_drop)
  then show ?thesis
    by (simp add: prepareRead_def HSA_prepareRead_def seekp_def remaining_def Let_def)
qed

lemma remaining_prepareRead_skip:
  "remaining (prepareRead a p True) = drop 8 (remaining (prepareRead a p False))"
  by (simp add: prepareRead_def HSA_prepareRead_def seekp_def skip_def remaining_def Let_def add.commute)

lemma written_length:
  assumes "wfPos (arena s) (writePosition s)"
  shows "length (written s) = offsetOf (blocks (arena s)) (writePosition s)"
proof -
  from wfPos_last[OF assms] obtain pre blk where
    bl: "blocks (arena s) = pre @ [blk]" and hp: "header (writePosition s) = length pre"
    and le: "position (writePosition s) \<le> length blk" by blast
  from le show ?thesis
    by (simp add: written_def offsetOf_def bl hp)
qed

lemma extends_appendBytes:
  "wfPos (arena s) (writePosition s) \<Longrightarrow> extends s (appendBytes s bs) bs"
  using appendBytes_written[of s bs] by (simp add: extends_def)

lemma extends_trans:
  "extends s s1 xs \<Longrightarrow> extends s1 s2 ys \<Longrightarrow> extends s s2 (xs @ ys)"
  by (auto simp: extends_def intro: prefix_order.trans)

lemma makeOutputStream_wf:
  assumes "wfList l a" and "makeOutputStream l a = (l1, s)"
  shows "wfPos (arena s) (writePosition s)" and "startPosition s = writePosition s"
    and "firstHeader l1 \<noteq> None"
    and "prefix (map length (blocks a)) (map length (blocks (arena s)))"
    and "firstHeader l \<noteq> None \<Longrightarrow> arena s = a \<and> writePosition s = currentPosition l"
  using assms
  by (auto simp: makeOutputStream_def wfList_def newWrite_def extendWrite_def wfPos_def Let_def
           split: option.splits)

lemma writeRecord_layout:
  assumes wf: "wfPos (arena s) (writePosition s)" and st: "startPosition s = writePosition s"
    and ex: "extends s s2 bs"
    and fin: "finishWrite l1 s2 = (pos, l', a')" and fh: "firstHeader l1 \<noteq> None"
  shows "wfList l' a'" and "stored l' a' pos bs" and "pos = writePosition s"
    and "prefix (map length (blocks (arena s))) (map length (blocks a'))"
    and "take (length (written s)) (concat (blocks a')) = written s"
    and "offsetOf (blocks a') (currentPosition l') = length (written s) + length bs"
    and "firstHeader l' = firstHeader l1" and "listSize l' = listSize l1 + 1"
proof -
  let ?s2 = s2
  from ex have W: "wfPos (arena s2) (writePosition s2) \<and> written s2 = written s @ bs \<and>
      startPosition s2 = startPosition s \<and>
      prefix (map length (blocks (arena s))) (map length (blocks (arena s2)))"
    by (simp add: extends_def)
  from fin have a': "a' = arena ?s2" and pos: "pos = startPosition ?s2"
    and l': "l' = l1\<lparr>listSize := listSize l1 + 1, currentPosition := writePosition ?s2\<rparr>"
    by (auto simp: finishWrite_def HSA_finishWrite_def Let_def)
  from W st pos show p0: "pos = writePosition s" by simp
  from W fh show "wfList l' a'" by (simp add: wfList_def l' a' split: option.splits)
  from W show pre: "prefix (map length (blocks (arena s))) (map length (blocks a'))" by (simp add: a')
  from wf have hlt: "header (writePosition s) < length (blocks (arena s))" by (auto simp: wfPos_def)
  have off: "offsetOf (blocks a') pos = length (written s)"
    using offsetOf_prefix[OF pre hlt] written_length[OF wf] p0 by simp
  from W have wf2: "wfPos (arena ?s2) (writePosition ?s2)" by simp
  have len2: "offsetOf (blocks a') (writePosition ?s2) = length (written s) + length bs"
    using written_length[OF wf2] W by (simp add: a')
  then show "offsetOf (blocks a') (currentPosition l') = length (written s) + length bs"
    by (simp add: l')
  have cc: "concat (blocks a') = (written s @ bs) @ drop (length (written s @ bs)) (concat (blocks a'))"
    using W len2 unfolding a' written_def
    by (metis append_take_drop_id length_append written_def)
  then show "take (length (written s)) (concat (blocks a')) = written s"
    by (metis append.assoc append_eq_conv_conj)
  have "take (length bs) (drop (length (written s)) (concat (blocks a'))) = bs"
    by (subst cc) simp
  then have "take (length bs) (remaining (prepareRead a' pos False)) = bs"
    by (simp add: remaining_prepareRead off)
  moreover from pre hlt p0 have "header pos < length (blocks a')"
    by (metis length_map prefix_length_le less_le_trans)
  ultimately show "stored l' a' pos bs"
    using fh off len2 by (simp add: stored_def l')
  show "firstHeader l' = firstHeader l1" "listSize l' = listSize l1 + 1" by (simp_all add: l')
qed

lemma writeRecord_preserves:
  assumes wf: "wfPos (arena s) (writePosition s)" and st: "startPosition s = writePosition s"
    and ex: "extends s s2 bs"
    and fin: "finishWrite l1 s2 = (pos, l', a')" and fh: "firstHeader l1 \<noteq> None"
    and old: "stored (l1\<lparr>currentPosition := writePosition s\<rparr>) (arena s) q cs"
  shows "stored l' a' q cs"
proof -
  note L = writeRecord_layout[OF wf st ex fin fh]
  from old have hq: "header q < length (blocks (arena s))"
    and le: "offsetOf (blocks (arena s)) q + length cs \<le> offsetOf (blocks (arena s)) (writePosition s)"
    and tk: "take (length cs) (remaining (prepareRead (arena s) q False)) = cs"
    by (simp_all add: stored_def)
  have offq: "offsetOf (blocks a') q = offsetOf (blocks (arena s)) q"
    by (rule offsetOf_prefix[OF L(4) hq])
  let ?n = "offsetOf (blocks (arena s)) q"
  have wl: "length (written s) = offsetOf (blocks (arena s)) (writePosition s)"
    by (rule written_length[OF wf])
  have "take (length cs) (drop ?n (concat (blocks a')))
        = take (length cs) (drop ?n (take (length (written s)) (concat (blocks a'))))"
    using le wl by (simp add: drop_take)
  also have "\<dots> = take (length cs) (drop ?n (written s))" by (simp only: L(5))
  also have "\<dots> = take (length cs) (drop ?n
        (take (offsetOf (blocks (arena s)) (writePosition s)) (concat (blocks (arena s)))))"
    by (simp only: written_def)
  also have "\<dots> = take (length cs) (drop ?n (concat (blocks (arena s))))"
    using le by (simp add: drop_take)
  also have "\<dots> = cs" using tk by (simp add: remaining_prepareRead)
  finally have "take (length cs) (remaining (prepareRead a' q False)) = cs"
    by (simp add: remaining_prepareRead offq)
  moreover from L(4) hq have "header q < length (blocks a')"
    by (metis length_map prefix_length_le less_le_trans)
  moreover have "offsetOf (blocks a') q + length cs \<le> offsetOf (blocks a') (currentPosition l')"
    using le wl L(6) offq by simp
  ultimately show ?thesis using fh L(7) by (simp add: stored_def)
qed

lemma append_streams:
  assumes wf: "wfList l a" and ap: "append hashValueAt serialize l v a = (pos, l', a')"
  obtains l1 s s2 where "makeOutputStream l a = (l1, s)"
    and "extends s s2 (toBytes 8 (hashValueAt v) @ serialize v)"
    and "finishWrite l1 s2 = (pos, l', a')"
proof -
  obtain l1 s where mk: "makeOutputStream l a = (l1, s)" by (cases "makeOutputStream l a")
  let ?s1 = "appendOne s (hashValueAt v)"
  let ?s2 = "appendBytes ?s1 (serialize v)"
  note M = makeOutputStream_wf[OF wf mk]
  have e1: "extends s ?s1 (toBytes 8 (hashValueAt v))"
    unfolding appendOne_def by (rule extends_appendBytes[OF M(1)])
  then have "wfPos (arena ?s1) (writePosition ?s1)" by (simp add: extends_def)
  then have e2: "extends ?s1 ?s2 (serialize v)" by (rule extends_appendBytes)
  from ap mk have "finishWrite l1 ?s2 = (pos, l', a')" by (simp add: append_def Let_def)
  with mk extends_trans[OF e1 e2] that show thesis by blast
qed

lemma append_stored:
  assumes wf: "wfList l a" and ap: "append hashValueAt serialize l v a = (pos, l', a')"
  shows "wfList l' a'" and "stored l' a' pos (toBytes 8 (hashValueAt v) @ serialize v)"
proof -
  from append_streams[OF wf ap] obtain l1 s s2 where mk: "makeOutputStream l a = (l1, s)"
    and ex: "extends s s2 (toBytes 8 (hashValueAt v) @ serialize v)"
    and fin: "finishWrite l1 s2 = (pos, l', a')" by blast
  note M = makeOutputStream_wf[OF wf mk]
  note L = writeRecord_layout[OF M(1) M(2) ex fin M(3)]
  show "wfList l' a'" by (rule L(1))
  show "stored l' a' pos (toBytes 8 (hashValueAt v) @ serialize v)" by (rule L(2))
qed

lemma append_preserves:
  assumes wf: "wfList l a" and ap: "append hashValueAt serialize l v a = (pos, l', a')"
    and old: "stored l a q cs"
  shows "stored l' a' q cs"
proof -
  from append_streams[OF wf ap] obtain l1 s s2 where mk: "makeOutputStream l a = (l1, s)"
    and ex: "extends s s2 (toBytes 8 (hashValueAt v) @ serialize v)"
    and fin: "finishWrite l1 s2 = (pos, l', a')" by blast
  note M = makeOutputStream_wf[OF wf mk]
  from old have fh: "firstHeader l \<noteq> None" by (simp add: stored_def)
  from M(5)[OF fh] have as: "arena s = a" and wp: "writePosition s = currentPosition l" by simp_all
  from fh mk have l1: "l1 = l" by (auto simp: makeOutputStream_def split: option.splits)
  from old have "stored (l1\<lparr>currentPosition := writePosition s\<rparr>) (arena s) q cs"
    by (simp add: as wp l1 stored_def)
  from writeRecord_preserves[OF M(1) M(2) ex fin M(3) this] show ?thesis .
qed

lemma appendMany_preserves:
  assumes "wfList l a" and "stored l a q cs" and "appendMany hashValueAt serialize l a ws = (l', a')"
  shows "wfList l' a' \<and> stored l' a' q cs"
  using assms
proof (induction ws arbitrary: l a)
  case Nil
  then show ?case by simp
next
  case (Cons w ws)
  obtain p l1 a1 where ap: "append hashValueAt serialize l w a = (p, l1, a1)"
    by (cases "append hashValueAt serialize l w a") auto
  from append_stored(1)[OF Cons.prems(1) ap] have wf1: "wfList l1 a1" .
  from append_preserves[OF Cons.prems(1) ap Cons.prems(2)] have st1: "stored l1 a1 q cs" .
  from Cons.prems(3) ap have "appendMany hashValueAt serialize l1 a1 ws = (l', a')" by simp
  from Cons.IH[OF wf1 st1 this] show ?case .
qed

lemma stored_readHash:
  assumes "stored l a pos (toBytes 8 h @ pl)"
  shows "readHash a pos = Inr h"
proof -
  let ?r = "remaining (prepareRead a pos False)"
  from assms have tk: "take (8 + length pl) ?r = toBytes 8 h @ pl"
    by (simp add: stored_def length_toBytes)
  then have "8 + length pl \<le> length ?r"
    by (metis length_append length_take length_toBytes min.cobounded1 add.commute)
  then have len: "cursor (prepareRead a pos False) + 8 \<le> length (ranges (prepareRead a pos False))"
    by (simp add: remaining_def)
  have "take 8 ?r = take 8 (take (8 + length pl) ?r)" by simp
  also have "\<dots> = toBytes 8 h" by (simp only: tk) (simp add: length_toBytes)
  finally show ?thesis using len
    by (simp add: readHash_def read_uint64_def readBytes_def fromBytes_toBytes Let_def)
qed

lemma stored_payload:
  assumes "stored l a pos (toBytes 8 h @ pl)"
  shows "\<exists>tail. remaining (prepareRead a pos True) = pl @ tail"
proof -
  let ?r = "remaining (prepareRead a pos False)"
  from assms have tk: "take (8 + length pl) ?r = toBytes 8 h @ pl"
    by (simp add: stored_def length_toBytes)
  have "?r = (toBytes 8 h @ pl) @ drop (8 + length pl) ?r"
    by (metis tk append_take_drop_id)
  then have "drop 8 ?r = pl @ drop (8 + length pl) ?r"
    by (metis append.assoc append_eq_conv_conj length_toBytes)
  then show ?thesis by (auto simp: remaining_prepareRead_skip)
qed

lemma toBytes8:
  "toBytes 8 w = [ucast w, ucast (drop_bit 8 w), ucast (drop_bit 16 w), ucast (drop_bit 24 w),
      ucast (drop_bit 32 w), ucast (drop_bit 40 w), ucast (drop_bit 48 w), ucast (drop_bit 56 w)]"
proof -
  have e: "Suc (Suc (Suc (Suc (Suc (Suc (Suc (Suc 0))))))) = 8" by simp
  have "toBytes (Suc (Suc (Suc (Suc (Suc (Suc (Suc (Suc 0)))))))) w =
     [ucast w, ucast (drop_bit 8 w), ucast (drop_bit 16 w), ucast (drop_bit 24 w),
      ucast (drop_bit 32 w), ucast (drop_bit 40 w), ucast (drop_bit 48 w), ucast (drop_bit 56 w)]"
    by (simp add: drop_bit_drop_bit)
  then show ?thesis by (simp only: e)
qed

lemma appendBytes_fits:
  assumes "blocks (arena s) = pre @ [blk]" and "header (writePosition s) = length pre"
    and "position (writePosition s) + length bs \<le> length blk"
  shows "appendBytes s bs =
     s\<lparr>arena := (arena s)\<lparr>blocks := pre @ [take (position (writePosition s)) blk @ bs @
                                       drop (position (writePosition s) + length bs) blk]\<rparr>,
       writePosition := (writePosition s)\<lparr>position := position (writePosition s) + length bs\<rparr>\<rparr>"
  using assms
proof (induction bs arbitrary: s blk)
  case Nil
  then show ?case by simp
next
  case (Cons b bs)
  let ?o = "position (writePosition s)"
  let ?s1 = "appendByte s b"
  from Cons.prems have lt: "?o < length blk" by simp
  have s1: "?s1 = s\<lparr>arena := (arena s)\<lparr>blocks := pre @ [blk[?o := b]]\<rparr>,
                     writePosition := (writePosition s)\<lparr>position := ?o + 1\<rparr>\<rparr>"
    using lt Cons.prems(1,2) by (simp add: appendByte_def Let_def)
  have "appendBytes ?s1 bs =
     ?s1\<lparr>arena := (arena ?s1)\<lparr>blocks := pre @ [take (position (writePosition ?s1)) (blk[?o := b]) @ bs @
                                       drop (position (writePosition ?s1) + length bs) (blk[?o := b])]\<rparr>,
       writePosition := (writePosition ?s1)\<lparr>position := position (writePosition ?s1) + length bs\<rparr>\<rparr>"
    by (rule Cons.IH) (use Cons.prems in \<open>simp_all add: s1\<close>)
  moreover have "take (?o + 1) (blk[?o := b]) = take ?o blk @ [b]"
    using lt by (simp add: take_Suc_conv_app_nth)
  ultimately show ?case by (simp add: s1)
qed

lemma ex_one: "append exHash exSerialize emptyList 5 exAllocator =
   (\<lparr>header = 0, position = 0\<rparr>,
    \<lparr>firstHeader = Some 0, currentPosition = \<lparr>header = 0, position = 16\<rparr>, listSize = 1\<rparr>,
    \<lparr>blocks = [[162, 0, 0, 0, 0, 0, 0, 0, 5, 0, 0, 0, 0, 0, 0, 0] @ replicate 28 0xAA],
       junk = 0xAA, increment = 15\<rparr>)"
proof -
  let ?s0 = "\<lparr>arena = \<lparr>blocks = [] @ [replicate 44 0xAA], junk = 0xAA, increment = 15\<rparr>,
              startPosition = \<lparr>header = 0, position = 0\<rparr>,
              writePosition = \<lparr>header = 0, position = 0\<rparr>\<rparr>"
  have mk: "makeOutputStream emptyList exAllocator =
      (\<lparr>firstHeader = Some 0, currentPosition = \<lparr>header = 0, position = 0\<rparr>, listSize = 0\<rparr>, ?s0)"
    by (simp add: makeOutputStream_def emptyList_def exAllocator_def newWrite_def kInitialSize_def Let_def)
  have h: "toBytes 8 (exHash 5) = [162, 0, 0, 0, 0, 0, 0, 0]"
    by (simp add: toBytes8 exHash_def)
  have p: "exSerialize 5 = [5, 0, 0, 0, 0, 0, 0, 0]"
    by (simp add: toBytes8 exSerialize_def)
  have w1: "appendOne ?s0 (exHash 5) = ?s0\<lparr>arena := \<lparr>blocks = [] @ [[162, 0, 0, 0, 0, 0, 0, 0] @ replicate 36 0xAA],
       junk = 0xAA, increment = 15\<rparr>, writePosition := \<lparr>header = 0, position = 8\<rparr>\<rparr>"
    unfolding appendOne_def h
    by (subst appendBytes_fits[where pre="[]" and blk="replicate 44 0xAA"]) simp_all
  show ?thesis
    unfolding append_def mk Let_def prod.case w1 p
    apply (subst appendBytes_fits[where pre="[]" and blk="[162, 0, 0, 0, 0, 0, 0, 0] @ replicate 36 0xAA"])
       apply simp_all
    apply (simp add: finishWrite_def HSA_finishWrite_def)
    done
qed

lemma ex_two: "exTwo =
   (\<lparr>header = 0, position = 16\<rparr>,
    \<lparr>firstHeader = Some 0, currentPosition = \<lparr>header = 0, position = 32\<rparr>, listSize = 2\<rparr>,
    \<lparr>blocks = [exBlock], junk = 0xAA, increment = 15\<rparr>)"
proof -
  let ?b1 = "[162, 0, 0, 0, 0, 0, 0, 0, 5, 0, 0, 0, 0, 0, 0, 0] @ replicate 28 (0xAA :: byte)"
  let ?l1 = "\<lparr>firstHeader = Some 0, currentPosition = \<lparr>header = 0, position = 16\<rparr>, listSize = 1\<rparr>"
  let ?s0 = "\<lparr>arena = \<lparr>blocks = [] @ [?b1], junk = 0xAA, increment = 15\<rparr>,
              startPosition = \<lparr>header = 0, position = 16\<rparr>,
              writePosition = \<lparr>header = 0, position = 16\<rparr>\<rparr>"
  have mk: "makeOutputStream ?l1 \<lparr>blocks = [?b1], junk = 0xAA, increment = 15\<rparr> = (?l1, ?s0)"
    by (simp add: makeOutputStream_def extendWrite_def)
  have h: "toBytes 8 (exHash 7) = [224, 0, 0, 0, 0, 0, 0, 0]"
    by (simp add: toBytes8 exHash_def)
  have p: "exSerialize 7 = [7, 0, 0, 0, 0, 0, 0, 0]"
    by (simp add: toBytes8 exSerialize_def)
  have w1: "appendOne ?s0 (exHash 7) = ?s0\<lparr>arena := \<lparr>blocks = [] @
       [[162, 0, 0, 0, 0, 0, 0, 0, 5, 0, 0, 0, 0, 0, 0, 0, 224, 0, 0, 0, 0, 0, 0, 0] @ replicate 20 0xAA],
       junk = 0xAA, increment = 15\<rparr>, writePosition := \<lparr>header = 0, position = 24\<rparr>\<rparr>"
    unfolding appendOne_def h
    by (subst appendBytes_fits[where pre="[]" and blk="?b1"]) simp_all
  have "append exHash exSerialize ?l1 7 \<lparr>blocks = [?b1], junk = 0xAA, increment = 15\<rparr> =
   (\<lparr>header = 0, position = 16\<rparr>,
    \<lparr>firstHeader = Some 0, currentPosition = \<lparr>header = 0, position = 32\<rparr>, listSize = 2\<rparr>,
    \<lparr>blocks = [exBlock], junk = 0xAA, increment = 15\<rparr>)"
    unfolding append_def mk Let_def prod.case w1 p
    apply (subst appendBytes_fits[where pre="[]" and blk="[162, 0, 0, 0, 0, 0, 0, 0, 5, 0, 0, 0, 0, 0, 0, 0, 224, 0, 0, 0, 0, 0, 0, 0] @ replicate 20 0xAA"])
       apply simp_all
    apply (simp add: finishWrite_def HSA_finishWrite_def exBlock_def)
    done
  then show ?thesis
    by (simp only: exTwo_def ex_one prod.case)
qed

lemma length_exBlock: "length exBlock = 44"
  by (simp add: exBlock_def)

lemma ex_size: "getSerializedSize (snd (snd exTwo)) (fst exTwo) = 44"
  by (simp add: ex_two getSerializedSize_def prepareRead_def HSA_prepareRead_def seekp_def
      streamSize_def length_exBlock)

lemma ex_copy_small:
  "copySerializedTo (snd (snd exTwo)) (fst exTwo) (replicate 16 0) 16 = Inl CheckFailed"
  by (simp add: ex_two copySerializedTo_def prepareRead_def HSA_prepareRead_def seekp_def
      streamSize_def length_exBlock)

lemma ex_copy_large:
  "copySerializedTo (snd (snd exTwo)) (fst exTwo) (replicate 44 0) 44 = Inr (exBlock, 44)"
  by (simp add: ex_two copySerializedTo_def prepareRead_def HSA_prepareRead_def seekp_def
      streamSize_def length_exBlock readBytes_def remaining_def)

text \<open>
  C3. Hash consistency: for a value appended to a store that satisfies its invariant,
  \<open>readHash\<close> at the returned position is the hash \<open>hashValueAt\<close> gave for the value,
  whatever the size of the payload, wherever the record starts and whether or not it
  crosses into further blocks, and also after any further values have been appended.
\<close>

theorem readHash_append:
  assumes "wfList l a"
    and "append hashValueAt serialize l v a = (pos, l', a')"
    and "appendMany hashValueAt serialize l' a' ws = (l'', a'')"
  shows "readHash a'' pos = Inr (hashValueAt v)"
proof -
  note S = append_stored[OF assms(1,2)]
  from appendMany_preserves[OF S(1) S(2) assms(3)]
  have "stored l'' a'' pos (toBytes 8 (hashValueAt v) @ serialize v)" by simp
  then show ?thesis by (rule stored_readHash)
qed

theorem readHash_append_witness:
  "wfList emptyList exAllocator \<and>
   readHash (snd (snd exTwo)) (fst exTwo) = Inr 224 \<and>
   readHash (snd (appendMany exHash exSerialize (fst (snd exTwo)) (snd (snd exTwo)) [1, 2, 3, 4, 5]))
     (fst exTwo) = Inr 224"
proof -
  let ?M = "appendMany exHash exSerialize (fst (snd exTwo)) (snd (snd exTwo)) [1, 2, 3, 4, 5]"
  have wf0: "wfList emptyList exAllocator" by (simp add: wfList_def emptyList_def)
  obtain p1 l1 a1 where a1: "append exHash exSerialize emptyList 5 exAllocator = (p1, l1, a1)"
    by (cases "append exHash exSerialize emptyList 5 exAllocator") auto
  have wf1: "wfList l1 a1" by (rule append_stored(1)[OF wf0 a1])
  have a2: "append exHash exSerialize l1 7 a1 = (fst exTwo, fst (snd exTwo), snd (snd exTwo))"
    by (simp add: exTwo_def a1)
  have h: "exHash 7 = 224" by (simp add: exHash_def)
  have m0: "appendMany exHash exSerialize (fst (snd exTwo)) (snd (snd exTwo)) [] =
        (fst (snd exTwo), snd (snd exTwo))" by simp
  have m: "?M = (fst ?M, snd ?M)" by simp
  show ?thesis
    using wf0 readHash_append[OF wf1 a2 m0] readHash_append[OF wf1 a2 m] h by simp
qed

text \<open>
  C2. Round trip: for a value appended to a store that satisfies its invariant, \<open>read\<close>
  at the returned position stores into the result vector a value equal to the appended
  one under the comparison \<open>sameValue\<close>, given that the codec decodes what it encoded up
  to that comparison whatever bytes follow. It holds wherever the record lies in the chain
  and after any further appends.
\<close>

theorem read_append:
  assumes "wfList l a"
    and "\<forall>w rest. sameValue (deserialize (serialize w @ rest)) w"
    and "append hashValueAt serialize l v a = (pos, l', a')"
    and "appendMany hashValueAt serialize l' a' ws = (l'', a'')"
    and "index < length result"
  shows "sameValue (read deserialize a'' pos result index ! index) v"
proof -
  note S = append_stored[OF assms(1,3)]
  from appendMany_preserves[OF S(1) S(2) assms(4)]
  have "stored l'' a'' pos (toBytes 8 (hashValueAt v) @ serialize v)" by simp
  from stored_payload[OF this] obtain tail where
    "remaining (prepareRead a'' pos True) = serialize v @ tail" ..
  with assms(2,5) show ?thesis by (simp add: read_def Let_def)
qed

lemma exCodec: "exDeserialize (exSerialize w @ rest) = w"
  by (simp add: exDeserialize_def exSerialize_def length_toBytes fromBytes_toBytes)

theorem read_append_witness:
  "wfList emptyList exAllocator \<and>
   (\<forall>w rest. exDeserialize (exSerialize w @ rest) = w) \<and>
   read exDeserialize (snd (snd exTwo)) (fst exTwo) [0, 0, 0] 1 ! 1 = 7 \<and>
   read exDeserialize
     (snd (appendMany exHash exSerialize (fst (snd exTwo)) (snd (snd exTwo)) [1, 2, 3, 4, 5]))
     (fst exTwo) [0, 0, 0] 1 ! 1 = 7"
proof -
  let ?M = "appendMany exHash exSerialize (fst (snd exTwo)) (snd (snd exTwo)) [1, 2, 3, 4, 5]"
  have wf0: "wfList emptyList exAllocator" by (simp add: wfList_def emptyList_def)
  obtain p1 l1 a1 where a1: "append exHash exSerialize emptyList 5 exAllocator = (p1, l1, a1)"
    by (cases "append exHash exSerialize emptyList 5 exAllocator") auto
  have wf1: "wfList l1 a1" by (rule append_stored(1)[OF wf0 a1])
  have a2: "append exHash exSerialize l1 7 a1 = (fst exTwo, fst (snd exTwo), snd (snd exTwo))"
    by (simp add: exTwo_def a1)
  have c: "\<forall>w rest. exDeserialize (exSerialize w @ rest) = w" by (simp add: exCodec)
  have m0: "appendMany exHash exSerialize (fst (snd exTwo)) (snd (snd exTwo)) [] =
        (fst (snd exTwo), snd (snd exTwo))" by simp
  have m: "?M = (fst ?M, snd ?M)" by simp
  have i: "1 < length [0, 0, 0 :: 64 word]" by simp
  show ?thesis
    using wf0 c read_append[OF wf1 c a2 m0 i] read_append[OF wf1 c a2 m i] by simp
qed

text \<open>
  How the accessors divide a stored record, the hash \<open>h\<close> followed by the payload
  \<open>pl\<close>: \<open>readHash\<close> reads \<open>h\<close> at the record's start; the stream that \<open>read\<close>
  and \<open>equalTo\<close> decode from starts at the payload, eight bytes further; the stream that
  \<open>getSerializedSize\<close> and \<open>copySerializedTo\<close> prepare is not advanced past the hash.
\<close>

lemma stored_unskipped:
  assumes "stored l a pos (toBytes 8 h @ pl)"
  shows "\<exists>tail. remaining (prepareRead a pos False) = toBytes 8 h @ pl @ tail"
proof -
  let ?r = "remaining (prepareRead a pos False)"
  from assms have "take (8 + length pl) ?r = toBytes 8 h @ pl"
    by (simp add: stored_def length_toBytes)
  then have "?r = (toBytes 8 h @ pl) @ drop (8 + length pl) ?r"
    by (metis append_take_drop_id)
  then show ?thesis by (metis append.assoc)
qed

lemma equalTo_payloads:
  assumes "stored l a left (toBytes 8 h1 @ pl1)" and "stored l a right (toBytes 8 h2 @ pl2)"
  shows "\<exists>t1 t2. equalTo compare a left right type =
           (compare (pl1 @ t1) (pl2 @ t2) type (equality kNullAsValue) = 0)"
proof -
  from stored_payload[OF assms(1)] obtain t1 where
    "remaining (prepareRead a left True) = pl1 @ t1" ..
  moreover from stored_payload[OF assms(2)] obtain t2 where
    "remaining (prepareRead a right True) = pl2 @ t2" ..
  ultimately show ?thesis by (auto simp: equalTo_def)
qed

text \<open>
  C4. The accessors on the second record of the sample store. The record at the position
  returned for the value 7 is the 8-byte hash 224 followed by the 8-byte payload, 16 bytes
  in all; \<open>readHash\<close> reads the hash at the record's start, and the stream of \<open>read\<close>
  and \<open>equalTo\<close> starts at the payload, which \<open>read\<close> decodes; \<open>getSerializedSize\<close>
  however reports 44, the size of the whole chain that starts at the position's header,
  and not the record's 16 bytes.
\<close>

theorem accessors_second_record:
  "fst exTwo = \<lparr>header = 0, position = 16\<rparr> \<and> blocks (snd (snd exTwo)) = [exBlock] \<and>
   stored (fst (snd exTwo)) (snd (snd exTwo)) (fst exTwo) (toBytes 8 224 @ exSerialize 7) \<and>
   length (toBytes 8 224 @ exSerialize 7) = 16 \<and>
   readHash (snd (snd exTwo)) (fst exTwo) = Inr 224 \<and>
   take 8 (remaining (prepareRead (snd (snd exTwo)) (fst exTwo) True)) = exSerialize 7 \<and>
   read exDeserialize (snd (snd exTwo)) (fst exTwo) [0] 0 = [7] \<and>
   getSerializedSize (snd (snd exTwo)) (fst exTwo) = 44"
proof -
  have h: "toBytes 8 224 @ exSerialize 7 = [224, 0, 0, 0, 0, 0, 0, 0, 7, 0, 0, 0, 0, 0, 0, 0]"
    by (simp add: toBytes8 exSerialize_def)
  have st: "stored (fst (snd exTwo)) (snd (snd exTwo)) (fst exTwo) (toBytes 8 224 @ exSerialize 7)"
    unfolding h
    by (simp add: ex_two stored_def offsetOf_def prepareRead_def HSA_prepareRead_def seekp_def
        remaining_def exBlock_def)
  have pl: "take 8 (remaining (prepareRead (snd (snd exTwo)) (fst exTwo) True)) = exSerialize 7"
    by (simp add: ex_two prepareRead_def HSA_prepareRead_def seekp_def skip_def
        remaining_def exBlock_def exSerialize_def toBytes8)
  have rd: "read exDeserialize (snd (snd exTwo)) (fst exTwo) [0] 0 = [7]"
    by (simp add: ex_two read_def prepareRead_def HSA_prepareRead_def seekp_def skip_def
        remaining_def exBlock_def exDeserialize_def fromBytes_def)
  have p: "fst exTwo = \<lparr>header = 0, position = 16\<rparr> \<and> blocks (snd (snd exTwo)) = [exBlock]"
    by (simp add: ex_two)
  from p st pl rd stored_readHash[OF st] ex_size show ?thesis
    by (simp add: length_toBytes exSerialize_def)
qed

text \<open>
  What \<open>copySerializedTo\<close> does at any position: it refuses a capacity below the size of
  the stream over the chain from the position's header, and otherwise copies that whole
  stream from its first byte.
\<close>

lemma copySerializedTo_eq:
  "copySerializedTo a pos buffer n =
     (if n < getSerializedSize a pos then Inl CheckFailed
      else Inr (concat (drop (header pos) (blocks a)) @ drop (getSerializedSize a pos) buffer,
                getSerializedSize a pos))"
  by (simp add: copySerializedTo_def getSerializedSize_def prepareRead_def HSA_prepareRead_def
      seekp_def streamSize_def readBytes_def remaining_def Let_def)

text \<open>
  C5. \<open>copySerializedTo\<close> on the second record of the sample store, whose full size
  (hash and payload) is 16 bytes. With a capacity of 16 the call fails its check; with a
  capacity of 44 it returns 44 and fills the buffer with the whole block, which starts
  with the first record (hash 162, value 5) and not with the record asked for.
\<close>

theorem copySerializedTo_second_record:
  "fst exTwo = \<lparr>header = 0, position = 16\<rparr> \<and> blocks (snd (snd exTwo)) = [exBlock] \<and>
   copySerializedTo (snd (snd exTwo)) (fst exTwo) (replicate 16 0) 16 = Inl CheckFailed \<and>
   copySerializedTo (snd (snd exTwo)) (fst exTwo) (replicate 44 0) 44 = Inr (exBlock, 44) \<and>
   take 16 exBlock = toBytes 8 (exHash 5) @ exSerialize 5"
proof -
  have "take 16 exBlock = toBytes 8 (exHash 5) @ exSerialize 5"
    by (simp add: exBlock_def toBytes8 exHash_def exSerialize_def)
  moreover have "fst exTwo = \<lparr>header = 0, position = 16\<rparr> \<and> blocks (snd (snd exTwo)) = [exBlock]"
    by (simp add: ex_two)
  ultimately show ?thesis using ex_copy_small ex_copy_large by simp
qed


section \<open>Properties of the group operations\<close>

lemma spillSizes_ok:
  "validGroups allRows groups \<Longrightarrow> \<exists>st'. spillSizes ops allRows groups st = Inr st'"
proof (induction groups arbitrary: st)
  case Nil
  then show ?case by (cases st) auto
next
  case (Cons g gs)
  obtain a b c d where st: "st = (a, b, c, d)" by (cases st) auto
  from Cons.prems obtain acc where acc: "accumulator (allRows ! g) = Some acc"
    and g: "g < length allRows" and rest: "validGroups allRows gs"
    by (auto simp: validGroups_def)
  from Cons.IH[OF rest] show ?case
    by (simp add: st getRow_def getAccumulator_def acc g)
qed

lemma spillGroups_frame:
  assumes "validGroups allRows groups"
    and "\<forall>acc al. cleared (fst (sa_clear ops acc al))"
  shows "\<exists>rows1 al1 buf1. spillGroups ops totalBytes allRows al rawBuffer groups = Inr (rows1, al1, buf1) \<and>
          length rows1 = length allRows \<and>
          (\<forall>g\<in>set groups. \<exists>acc. accumulator (rows1 ! g) = Some acc \<and> cleared acc) \<and>
          (\<forall>j<length allRows.
              nullFlags (rows1 ! j) = nullFlags (allRows ! j) \<and>
              rowSize (rows1 ! j) = rowSize (allRows ! j) \<and>
              fnState (rows1 ! j) = fnState (allRows ! j) \<and>
              (accumulator (allRows ! j) \<noteq> None \<longrightarrow> accumulator (rows1 ! j) \<noteq> None) \<and>
              (j \<notin> set groups \<longrightarrow> rows1 ! j = allRows ! j))"
  using assms(1)
proof (induction groups arbitrary: allRows al rawBuffer)
  case Nil
  then show ?case by simp
next
  case (Cons g gs)
  from Cons.prems obtain acc where acc: "accumulator (allRows ! g) = Some acc"
    and g: "g < length allRows" and rest: "validGroups allRows gs"
    by (auto simp: validGroups_def)
  obtain acc1 al1 where cl: "sa_clear ops acc al = (acc1, al1)" by (cases "sa_clear ops acc al")
  let ?rows = "allRows[g := (allRows ! g)\<lparr>accumulator := Some acc1\<rparr>]"
  let ?buf = "rawBuffer @ sa_extractForSpill ops acc (totalBytes - length rawBuffer)"
  from assms(2) cl have c1: "cleared acc1" by (metis fst_conv)
  have v: "validGroups ?rows gs"
    using rest g by (auto simp: validGroups_def list_all_iff nth_list_update)
  from Cons.IH[OF v, of al1 ?buf] obtain rows1 al2 buf1 where
    sg: "spillGroups ops totalBytes ?rows al1 ?buf gs = Inr (rows1, al2, buf1)"
    and len: "length rows1 = length ?rows"
    and clr: "\<forall>h\<in>set gs. \<exists>acc. accumulator (rows1 ! h) = Some acc \<and> cleared acc"
    and fr: "\<forall>j<length ?rows.
              nullFlags (rows1 ! j) = nullFlags (?rows ! j) \<and>
              rowSize (rows1 ! j) = rowSize (?rows ! j) \<and>
              fnState (rows1 ! j) = fnState (?rows ! j) \<and>
              (accumulator (?rows ! j) \<noteq> None \<longrightarrow> accumulator (rows1 ! j) \<noteq> None) \<and>
              (j \<notin> set gs \<longrightarrow> rows1 ! j = ?rows ! j)"
    by blast
  have eq: "spillGroups ops totalBytes allRows al rawBuffer (g # gs) = Inr (rows1, al2, buf1)"
    using sg by (simp add: getRow_def getAccumulator_def acc g cl Let_def)
  have gcl: "\<exists>acc. accumulator (rows1 ! g) = Some acc \<and> cleared acc"
  proof (cases "g \<in> set gs")
    case True
    with clr show ?thesis by blast
  next
    case False
    with fr g have "rows1 ! g = ?rows ! g" by simp
    with g c1 show ?thesis by simp
  qed
  show ?case
    apply (rule exI[of _ rows1], rule exI[of _ al2], rule exI[of _ buf1])
    using eq len clr gcl fr g
    apply (auto simp: nth_list_update split: if_splits)
    done
qed

text \<open>
  C9. Frame property of spill extraction. When every group of the range names a row with
  a constructed accumulator, \<open>extractForSpill\<close> succeeds, and afterwards each processed
  group's row still holds an accumulator, so that the range stays valid for further
  insertions; it is the accumulator \<open>clear\<close> left: any property
  \<open>cleared\<close> that \<open>clear\<close> establishes (an element count of zero, its memory
  released) holds of it. No accumulator is destroyed, the null flags, the row-size counter
  and the wrapped functions' state of every row are as before, and rows outside the range
  are unchanged.
\<close>

theorem extractForSpill_frame:
  assumes "validGroups allRows groups"
    and "\<forall>acc al. cleared (fst (sa_clear ops acc al))"
  shows "\<exists>rows1 al1 result1.
          extractForSpill ops allRows al groups result = Inr (rows1, al1, result1) \<and>
          length rows1 = length allRows \<and> validGroups rows1 groups \<and>
          (\<forall>g\<in>set groups. \<exists>acc. accumulator (rows1 ! g) = Some acc \<and> cleared acc) \<and>
          (\<forall>j<length allRows.
              nullFlags (rows1 ! j) = nullFlags (allRows ! j) \<and>
              rowSize (rows1 ! j) = rowSize (allRows ! j) \<and>
              fnState (rows1 ! j) = fnState (allRows ! j) \<and>
              (accumulator (allRows ! j) \<noteq> None \<longrightarrow> accumulator (rows1 ! j) \<noteq> None) \<and>
              (j \<notin> set groups \<longrightarrow> rows1 ! j = allRows ! j))"
proof -
  from spillSizes_ok[OF assms(1), of ops "([], [], 0, 0)"] obtain rawSizes rawOffsets totalBytes offset
    where ss: "spillSizes ops allRows groups ([], [], 0, 0) = Inr (rawSizes, rawOffsets, totalBytes, offset)"
    by (metis prod_cases4)
  from spillGroups_frame[OF assms, of totalBytes al "[]"] obtain rows1 al1 buf1 where
    sg: "spillGroups ops totalBytes allRows al [] groups = Inr (rows1, al1, buf1)"
    and rest: "length rows1 = length allRows \<and>
          (\<forall>g\<in>set groups. \<exists>acc. accumulator (rows1 ! g) = Some acc \<and> cleared acc) \<and>
          (\<forall>j<length allRows.
              nullFlags (rows1 ! j) = nullFlags (allRows ! j) \<and>
              rowSize (rows1 ! j) = rowSize (allRows ! j) \<and>
              fnState (rows1 ! j) = fnState (allRows ! j) \<and>
              (accumulator (allRows ! j) \<noteq> None \<longrightarrow> accumulator (rows1 ! j) \<noteq> None) \<and>
              (j \<notin> set groups \<longrightarrow> rows1 ! j = allRows ! j))"
    by blast
  have e: "extractForSpill ops allRows al groups result =
          Inr (rows1, al1, result\<lparr>av_offsets := rawOffsets, av_sizes := rawSizes, av_elements := [buf1]\<rparr>)"
    by (simp add: extractForSpill_def ss sg)
  from assms(1) rest have "validGroups rows1 groups"
    by (auto simp: validGroups_def list_all_iff)
  with e rest show ?thesis by blast
qed

lemma ex_new: "initializeNewGroups listSetOps exTda 1 [rawRow, rawRow] [0, 1] [0, 1] = Inr [newRow, newRow]"
  by (simp add: initializeNewGroups_def listSetOps_def exTda_def rawRow_def newRow_def countFn_def)

lemma ex_decoded: "makeInputForAccumulator exTda exInput = Inr [Cell 5, Cell 5, Cell 7, Cell 5, Cell 7]"
  by (simp add: makeInputForAccumulator_def isSingleInputAggregate_def exTda_def exInput_def rv_childAt_def)

lemma ex_addInput:
  "addInput listSetOps exTda [newRow, newRow] 0 [0, 0, 0, 0, 1] exInput [0, 1, 2, 3, 4] = Inr (exRows, 48)"
  by (simp add: addInput_def ex_decoded getRow_def getAccumulator_def newRow_def exRows_def
      listSetOps_def lsAddValue_def trackRowSize_def saturatingIncrement_def Let_def)

lemma ser5: "serializeCell (Cell 5) = [162, 0, 0, 0, 0, 0, 0, 0, 5, 0, 0, 0, 0, 0, 0, 0]"
  by (simp add: toBytes8 exHash_def)

lemma ser7: "serializeCell (Cell 7) = [224, 0, 0, 0, 0, 0, 0, 0, 7, 0, 0, 0, 0, 0, 0, 0]"
  by (simp add: toBytes8 exHash_def)

lemma ex_spill: "extractForSpill listSetOps exRows 48 [0, 1] emptyColumn = Inr (exRowsCleared, 0, exSpillColumn)"
  by (simp add: extractForSpill_def getRow_def getAccumulator_def exRows_def exRowsCleared_def
      listSetOps_def emptyColumn_def exSpillColumn_def Let_def ser5 ser7 del: serializeCell.simps)

lemma ex_parse: "concat (map parseRecords (av_elements exSpillColumn)) = [Cell 5, Cell 7, Cell 7]"
  by (simp add: exSpillColumn_def fromBytes_def)

theorem extractForSpill_frame_witness:
  "validGroups exRows [0, 1] \<and>
   (\<forall>acc al. sa_size listSetOps (fst (sa_clear listSetOps acc al)) = 0) \<and>
   extractForSpill listSetOps exRows 48 [0, 1] emptyColumn = Inr (exRowsCleared, 0, exSpillColumn) \<and>
   (\<exists>acc. accumulator (exRowsCleared ! 0) = Some acc \<and> sa_size listSetOps acc = 0) \<and>
   (\<exists>acc. accumulator (exRowsCleared ! 1) = Some acc \<and> sa_size listSetOps acc = 0) \<and>
   nullFlags (exRowsCleared ! 1) = nullFlags (exRows ! 1) \<and>
   rowSize (exRowsCleared ! 1) = rowSize (exRows ! 1) \<and>
   fnState (exRowsCleared ! 1) = fnState (exRows ! 1)"
proof -
  have v: "validGroups exRows [0, 1]" by (simp add: validGroups_def exRows_def)
  have c: "\<forall>acc al. sa_size listSetOps (fst (sa_clear listSetOps acc al)) = 0"
    by (simp add: listSetOps_def)
  from extractForSpill_frame[OF v, of "\<lambda>acc. sa_size listSetOps acc = 0" listSetOps 48 emptyColumn, OF c]
  obtain rows1 al1 result1 where
    e: "extractForSpill listSetOps exRows 48 [0, 1] emptyColumn = Inr (rows1, al1, result1)"
    and cl: "\<forall>g\<in>set [0, 1]. \<exists>acc. accumulator (rows1 ! g) = Some acc \<and> sa_size listSetOps acc = 0"
    and fr: "\<forall>j<length exRows.
              nullFlags (rows1 ! j) = nullFlags (exRows ! j) \<and>
              rowSize (rows1 ! j) = rowSize (exRows ! j) \<and>
              fnState (rows1 ! j) = fnState (exRows ! j) \<and>
              (accumulator (exRows ! j) \<noteq> None \<longrightarrow> accumulator (rows1 ! j) \<noteq> None) \<and>
              (j \<notin> set [0, 1] \<longrightarrow> rows1 ! j = exRows ! j)"
    by blast
  from e have r: "rows1 = exRowsCleared" by (simp only: ex_spill) simp
  have l: "1 < length exRows" by (simp add: exRows_def)
  from cl have c0: "\<exists>acc. accumulator (rows1 ! 0) = Some acc \<and> sa_size listSetOps acc = 0"
    and c1: "\<exists>acc. accumulator (rows1 ! 1) = Some acc \<and> sa_size listSetOps acc = 0"
    by simp_all
  from fr l have f1: "nullFlags (rows1 ! 1) = nullFlags (exRows ! 1) \<and>
              rowSize (rows1 ! 1) = rowSize (exRows ! 1) \<and>
              fnState (rows1 ! 1) = fnState (exRows ! 1)" by blast
  from v c ex_spill c0 c1 f1 show ?thesis unfolding r by blast
qed

text \<open>
  C10. The result of \<open>addSingleGroupSpillInput\<close> does not depend on its index: for any
  two valid indices of the spill column it leaves the rows and the allocator in the same
  state, the one reached by handing the whole elements vector of the column to the
  accumulator's \<open>addFromSpill\<close>.
\<close>

theorem addSingleGroupSpillInput_index:
  assumes "i < length (av_sizes input)" and "i < length (av_offsets input)"
    and "j < length (av_sizes input)" and "j < length (av_offsets input)"
  shows "addSingleGroupSpillInput ops allRows al grp input i =
           addSingleGroupSpillInput ops allRows al grp input j \<and>
         addSingleGroupSpillInput ops allRows al grp input i =
           (case getRow allRows grp of
              Inl e \<Rightarrow> Inl e
            | Inr row \<Rightarrow>
               (case getAccumulator row of
                  Inl e \<Rightarrow> Inl e
                | Inr acc \<Rightarrow>
                    Inr (allRows[grp := row\<lparr>accumulator :=
                                          Some (fst (sa_addFromSpill ops (av_elements input) acc al))\<rparr>],
                         snd (sa_addFromSpill ops (av_elements input) acc al))))"
  using assms
  by (simp add: addSingleGroupSpillInput_def sizeAt_def offsetAt_def Let_def case_prod_unfold
           split: sum.splits)

theorem addSingleGroupSpillInput_index_witness:
  "addSingleGroupSpillInput listSetOps [newRow, newRow] 0 1 exSpillColumn 0 =
     addSingleGroupSpillInput listSetOps [newRow, newRow] 0 1 exSpillColumn 1 \<and>
   addSingleGroupSpillInput listSetOps [newRow, newRow] 0 1 exSpillColumn 1 =
     Inr ([newRow, newRow\<lparr>accumulator := Some [Cell 5, Cell 7]\<rparr>], 32)"
proof -
  have a: "0 < length (av_sizes exSpillColumn)" "0 < length (av_offsets exSpillColumn)"
    "1 < length (av_sizes exSpillColumn)" "1 < length (av_offsets exSpillColumn)"
    by (simp_all add: exSpillColumn_def)
  have f: "sa_addFromSpill listSetOps (av_elements exSpillColumn) [] 0 = ([Cell 5, Cell 7], 32)"
    by (simp add: listSetOps_def ex_parse lsAddValue_def)
  note T = addSingleGroupSpillInput_index[OF a, of listSetOps "[newRow, newRow]" 0 1]
  note e = T[THEN conjunct1]
  have "(case getRow [newRow, newRow] 1 of
              Inl e \<Rightarrow> Inl e
            | Inr row \<Rightarrow>
               (case getAccumulator row of
                  Inl e \<Rightarrow> Inl e
                | Inr acc \<Rightarrow>
                    Inr ([newRow, newRow][1 := row\<lparr>accumulator :=
                                          Some (fst (sa_addFromSpill listSetOps (av_elements exSpillColumn) acc 0))\<rparr>],
                         snd (sa_addFromSpill listSetOps (av_elements exSpillColumn) acc 0)))) =
     Inr ([newRow, newRow\<lparr>accumulator := Some [Cell 5, Cell 7]\<rparr>], 32)"
    by (simp add: getRow_def getAccumulator_def newRow_def f)
  with T[THEN conjunct2] have "addSingleGroupSpillInput listSetOps [newRow, newRow] 0 1 exSpillColumn 0 =
     Inr ([newRow, newRow\<lparr>accumulator := Some [Cell 5, Cell 7]\<rparr>], 32)"
    by (rule trans)
  with e show ?thesis by (simp only:)
qed

lemma initAccumulators_effect:
  assumes "validIndices allRows groups indices"
  shows "\<exists>rows1. initAccumulators ops inputType nullMask allRows groups indices = Inr rows1 \<and>
          length rows1 = length allRows \<and>
          (\<forall>i\<in>set indices.
              accumulator (rows1 ! (groups ! i)) = Some (sa_construct ops inputType) \<and>
              nullFlags (rows1 ! (groups ! i)) = nullFlags (allRows ! (groups ! i)) OR nullMask) \<and>
          (\<forall>g<length allRows.
              rowSize (rows1 ! g) = rowSize (allRows ! g) \<and>
              fnState (rows1 ! g) = fnState (allRows ! g) \<and>
              (nullFlags (rows1 ! g) = nullFlags (allRows ! g) \<or>
               nullFlags (rows1 ! g) = nullFlags (allRows ! g) OR nullMask) \<and>
              (g \<notin> (\<lambda>i. groups ! i) ` set indices \<longrightarrow> rows1 ! g = allRows ! g))"
  using assms
proof (induction indices arbitrary: allRows)
  case Nil
  then show ?case by simp
next
  case (Cons i rest)
  let ?g = "groups ! i"
  let ?rows = "allRows[?g := (allRows ! ?g)\<lparr>nullFlags := nullFlags (allRows ! ?g) OR nullMask,
                                       accumulator := Some (sa_construct ops inputType)\<rparr>]"
  from Cons.prems have i: "i < length groups" and g: "?g < length allRows"
    and v: "validIndices ?rows groups rest"
    by (auto simp: validIndices_def)
  from Cons.IH[OF v] obtain rows1 where
    ia: "initAccumulators ops inputType nullMask ?rows groups rest = Inr rows1"
    and len: "length rows1 = length ?rows"
    and new: "\<forall>k\<in>set rest.
              accumulator (rows1 ! (groups ! k)) = Some (sa_construct ops inputType) \<and>
              nullFlags (rows1 ! (groups ! k)) = nullFlags (?rows ! (groups ! k)) OR nullMask"
    and fr: "\<forall>h<length ?rows.
              rowSize (rows1 ! h) = rowSize (?rows ! h) \<and>
              fnState (rows1 ! h) = fnState (?rows ! h) \<and>
              (nullFlags (rows1 ! h) = nullFlags (?rows ! h) \<or>
               nullFlags (rows1 ! h) = nullFlags (?rows ! h) OR nullMask) \<and>
              (h \<notin> (\<lambda>i. groups ! i) ` set rest \<longrightarrow> rows1 ! h = ?rows ! h)"
    by blast
  have eq: "initAccumulators ops inputType nullMask allRows groups (i # rest) = Inr rows1"
    using ia i g by simp
  have idem: "\<And>x. (x OR nullMask) OR nullMask = x OR nullMask"
    by (simp add: or.assoc)
  have gi: "accumulator (rows1 ! ?g) = Some (sa_construct ops inputType) \<and>
            nullFlags (rows1 ! ?g) = nullFlags (allRows ! ?g) OR nullMask"
  proof (cases "?g \<in> (\<lambda>i. groups ! i) ` set rest")
    case True
    then obtain k where k: "k \<in> set rest" and gk: "groups ! k = ?g" by auto
    from new k have "accumulator (rows1 ! (groups ! k)) = Some (sa_construct ops inputType) \<and>
              nullFlags (rows1 ! (groups ! k)) = nullFlags (?rows ! (groups ! k)) OR nullMask"
      by blast
    with gk g show ?thesis by (simp add: idem)
  next
    case False
    with fr g have "rows1 ! ?g = ?rows ! ?g" by simp
    with g show ?thesis by simp
  qed
  have others: "\<forall>k\<in>set rest.
              accumulator (rows1 ! (groups ! k)) = Some (sa_construct ops inputType) \<and>
              nullFlags (rows1 ! (groups ! k)) = nullFlags (allRows ! (groups ! k)) OR nullMask"
  proof
    fix k assume k: "k \<in> set rest"
    with new have a: "accumulator (rows1 ! (groups ! k)) = Some (sa_construct ops inputType)"
      and n: "nullFlags (rows1 ! (groups ! k)) = nullFlags (?rows ! (groups ! k)) OR nullMask"
      by blast+
    show "accumulator (rows1 ! (groups ! k)) = Some (sa_construct ops inputType) \<and>
              nullFlags (rows1 ! (groups ! k)) = nullFlags (allRows ! (groups ! k)) OR nullMask"
    proof (cases "groups ! k = ?g")
      case True
      with gi a show ?thesis by simp
    next
      case False
      with n a show ?thesis by simp
    qed
  qed
  have frame: "\<forall>h<length allRows.
              rowSize (rows1 ! h) = rowSize (allRows ! h) \<and>
              fnState (rows1 ! h) = fnState (allRows ! h) \<and>
              (nullFlags (rows1 ! h) = nullFlags (allRows ! h) \<or>
               nullFlags (rows1 ! h) = nullFlags (allRows ! h) OR nullMask) \<and>
              (h \<notin> (\<lambda>i. groups ! i) ` set (i # rest) \<longrightarrow> rows1 ! h = allRows ! h)"
  proof (intro allI impI)
    fix h assume h: "h < length allRows"
    with fr have f: "rowSize (rows1 ! h) = rowSize (?rows ! h) \<and>
              fnState (rows1 ! h) = fnState (?rows ! h) \<and>
              (nullFlags (rows1 ! h) = nullFlags (?rows ! h) \<or>
               nullFlags (rows1 ! h) = nullFlags (?rows ! h) OR nullMask) \<and>
              (h \<notin> (\<lambda>i. groups ! i) ` set rest \<longrightarrow> rows1 ! h = ?rows ! h)"
      by simp
    show "rowSize (rows1 ! h) = rowSize (allRows ! h) \<and>
              fnState (rows1 ! h) = fnState (allRows ! h) \<and>
              (nullFlags (rows1 ! h) = nullFlags (allRows ! h) \<or>
               nullFlags (rows1 ! h) = nullFlags (allRows ! h) OR nullMask) \<and>
              (h \<notin> (\<lambda>i. groups ! i) ` set (i # rest) \<longrightarrow> rows1 ! h = allRows ! h)"
    proof (cases "h = ?g")
      case True
      with f gi g show ?thesis by (auto simp: idem)
    next
      case False
      with f h show ?thesis by auto
    qed
  qed
  from eq len gi others frame show ?case by auto
qed

lemma forwardInitialize_foldl:
  "forwardInitialize aggregates allRows groups indices =
     foldl (\<lambda>rs aggregate. fn_initializeNewGroups (func aggregate) rs groups indices) allRows aggregates"
  by (induction aggregates arbitrary: allRows) simp_all

text \<open>
  C8, as amended. For valid indices \<open>initializeNewGroups\<close> succeeds; it constructs a
  new accumulator in each indicated row and sets that row's null flag for the
  distinct-accumulator slot, so that the slot reads as null; it leaves the other parts of
  every row and all other rows as they were; and afterwards it hands the rows so prepared,
  with the same group pointers and indices, to the \<open>initializeNewGroups\<close> of every
  wrapped aggregate function in turn.
\<close>

theorem initializeNewGroups_effect:
  assumes "validIndices allRows groups indices"
  shows "\<exists>rows1.
          initializeNewGroups ops tda nullMask allRows groups indices =
            Inr (foldl (\<lambda>rs aggregate. fn_initializeNewGroups (func aggregate) rs groups indices)
                   rows1 (tda_aggregates tda)) \<and>
          length rows1 = length allRows \<and>
          (\<forall>i\<in>set indices.
              accumulator (rows1 ! (groups ! i)) = Some (sa_construct ops (tda_inputType tda)) \<and>
              nullFlags (rows1 ! (groups ! i)) = nullFlags (allRows ! (groups ! i)) OR nullMask \<and>
              isNull nullMask (rows1 ! (groups ! i)) = (nullMask \<noteq> 0)) \<and>
          (\<forall>g<length allRows.
              rowSize (rows1 ! g) = rowSize (allRows ! g) \<and>
              fnState (rows1 ! g) = fnState (allRows ! g) \<and>
              (g \<notin> (\<lambda>i. groups ! i) ` set indices \<longrightarrow> rows1 ! g = allRows ! g))"
proof -
  from initAccumulators_effect[OF assms, of ops "tda_inputType tda" nullMask] obtain rows1 where
    ia: "initAccumulators ops (tda_inputType tda) nullMask allRows groups indices = Inr rows1"
    and len: "length rows1 = length allRows"
    and new: "\<forall>i\<in>set indices.
              accumulator (rows1 ! (groups ! i)) = Some (sa_construct ops (tda_inputType tda)) \<and>
              nullFlags (rows1 ! (groups ! i)) = nullFlags (allRows ! (groups ! i)) OR nullMask"
    and fr: "\<forall>g<length allRows.
              rowSize (rows1 ! g) = rowSize (allRows ! g) \<and>
              fnState (rows1 ! g) = fnState (allRows ! g) \<and>
              (nullFlags (rows1 ! g) = nullFlags (allRows ! g) \<or>
               nullFlags (rows1 ! g) = nullFlags (allRows ! g) OR nullMask) \<and>
              (g \<notin> (\<lambda>i. groups ! i) ` set indices \<longrightarrow> rows1 ! g = allRows ! g)"
    by blast
  have m: "\<And>x. ((x OR nullMask) AND nullMask \<noteq> 0) = (nullMask \<noteq> 0)"
    by (simp add: and.commute[of _ nullMask] bit.conj_disj_distrib and.assoc[symmetric])
  have "initializeNewGroups ops tda nullMask allRows groups indices =
            Inr (foldl (\<lambda>rs aggregate. fn_initializeNewGroups (func aggregate) rs groups indices)
                   rows1 (tda_aggregates tda))"
    by (simp add: initializeNewGroups_def ia forwardInitialize_foldl)
  with len new fr m show ?thesis
    by (auto simp: isNull_def)
qed

theorem initializeNewGroups_effect_witness:
  "validIndices [rawRow, rawRow] [0, 1] [0, 1] \<and>
   (\<exists>rows1. initializeNewGroups listSetOps exTda 1 [rawRow, rawRow] [0, 1] [0, 1] =
       Inr (fn_initializeNewGroups countFn rows1 [0, 1] [0, 1]) \<and>
     accumulator (rows1 ! 0) = Some [] \<and> nullFlags (rows1 ! 0) = 1 \<and> isNull 1 (rows1 ! 0) \<and>
     accumulator (rows1 ! 1) = Some [] \<and> nullFlags (rows1 ! 1) = 1 \<and> isNull 1 (rows1 ! 1))"
proof -
  have v: "validIndices [rawRow, rawRow] [0, 1] [0, 1]" by (simp add: validIndices_def)
  from initializeNewGroups_effect[OF v, of listSetOps exTda 1] obtain rows1 where
    e: "initializeNewGroups listSetOps exTda 1 [rawRow, rawRow] [0, 1] [0, 1] =
            Inr (foldl (\<lambda>rs aggregate. fn_initializeNewGroups (func aggregate) rs [0, 1] [0, 1])
                   rows1 (tda_aggregates exTda))"
    and n: "\<forall>i\<in>set [0, 1].
              accumulator (rows1 ! ([0, 1] ! i)) = Some (sa_construct listSetOps (tda_inputType exTda)) \<and>
              nullFlags (rows1 ! ([0, 1] ! i)) = nullFlags ([rawRow, rawRow] ! ([0, 1] ! i)) OR 1 \<and>
              isNull 1 (rows1 ! ([0, 1] ! i)) = ((1 :: byte) \<noteq> 0)"
    by blast
  from e have e': "initializeNewGroups listSetOps exTda 1 [rawRow, rawRow] [0, 1] [0, 1] =
       Inr (fn_initializeNewGroups countFn rows1 [0, 1] [0, 1])"
    by (simp add: exTda_def)
  from n have "accumulator (rows1 ! 0) = Some [] \<and> nullFlags (rows1 ! 0) = 1 \<and> isNull 1 (rows1 ! 0) \<and>
     accumulator (rows1 ! 1) = Some [] \<and> nullFlags (rows1 ! 1) = 1 \<and> isNull 1 (rows1 ! 1)"
    by (simp add: listSetOps_def rawRow_def)
  with v e' show ?thesis by blast
qed

text \<open>
  C8 as stated fails: a row whose slot is not null is marked null, not non-null, by
  \<open>initializeNewGroups\<close>.
\<close>

theorem initializeNewGroups_sets_null_flag:
  "\<not> isNull 1 rawRow \<and>
   initializeNewGroups listSetOps exTda 1 [rawRow, rawRow] [0, 1] [0, 1] = Inr [newRow, newRow] \<and>
   isNull 1 newRow"
  by (simp only: ex_new) (simp add: isNull_def rawRow_def newRow_def)

lemma spillSizes_length:
  "spillSizes ops allRows groups (rawSizes, rawOffsets, totalBytes, offset) = Inr (s, f, t, k) \<Longrightarrow>
     length s = length rawSizes + length groups \<and> length f = length rawOffsets + length groups"
  by (induction groups arbitrary: rawSizes rawOffsets totalBytes offset)
     (auto split: sum.splits)

text \<open>
  Whatever the uniqueness set does: of a column spilled from several groups, every group's
  row index restores the same state into a given row.
\<close>

lemma restore_same_for_all_groups:
  assumes "extractForSpill ops allRows al groups result = Inr (rows1, al1, spill)"
    and "i < length groups" and "j < length groups"
  shows "addSingleGroupSpillInput ops fresh al2 grp spill i =
         addSingleGroupSpillInput ops fresh al2 grp spill j"
proof -
  from assms(1) obtain s f t k where
    ss: "spillSizes ops allRows groups ([], [], 0, 0) = Inr (s, f, t, k)"
    and sp: "av_sizes spill = s" "av_offsets spill = f"
    by (auto simp: extractForSpill_def split: sum.splits)
  from spillSizes_length[OF ss] have "length s = length groups" "length f = length groups"
    by simp_all
  with assms(2,3) sp show ?thesis
    by (simp add: addSingleGroupSpillInput_def sizeAt_def offsetAt_def)
qed

lemma ex_built: "exBuilt = Inr (exRows, 48)"
  by (simp only: exBuilt_def ex_new sum.case ex_addInput)

lemma ex_extract:
  "extractValues listSetOps exTda exRows [0, 1] [[]] =
     Inr ([(exRows ! 0)\<lparr>fnState := 2\<rparr>, (exRows ! 1)\<lparr>fnState := 1\<rparr>], [[2, 1]])"
  by (simp add: extractValues_def exTda_def getRow_def getAccumulator_def exRows_def
      listSetOps_def countFn_def makeInputForAggregation_def isSingleInputAggregate_def Let_def)

lemma ex_restore0:
  "addSingleGroupSpillInput listSetOps [newRow, newRow] 0 0 exSpillColumn 0 =
     Inr ([newRow\<lparr>accumulator := Some [Cell 5, Cell 7]\<rparr>, newRow], 32)"
  by (simp add: addSingleGroupSpillInput_def sizeAt_def offsetAt_def getRow_def getAccumulator_def
      Let_def listSetOps_def ex_parse lsAddValue_def newRow_def)
     (simp add: exSpillColumn_def)

lemma ex_restore1:
  "addSingleGroupSpillInput listSetOps [newRow\<lparr>accumulator := Some [Cell 5, Cell 7]\<rparr>, newRow] 32 1 exSpillColumn 1 =
     Inr ([newRow\<lparr>accumulator := Some [Cell 5, Cell 7]\<rparr>,
           newRow\<lparr>accumulator := Some [Cell 5, Cell 7]\<rparr>], 64)"
  by (simp add: addSingleGroupSpillInput_def sizeAt_def offsetAt_def getRow_def getAccumulator_def
      Let_def listSetOps_def ex_parse lsAddValue_def newRow_def)
     (simp add: exSpillColumn_def)

lemma ex_extract_restored:
  "extractValues listSetOps exTda [newRow\<lparr>accumulator := Some [Cell 5, Cell 7]\<rparr>,
           newRow\<lparr>accumulator := Some [Cell 5, Cell 7]\<rparr>] [0, 1] [[]] =
     Inr ([newRow\<lparr>accumulator := Some [Cell 5, Cell 7], fnState := 2\<rparr>,
           newRow\<lparr>accumulator := Some [Cell 5, Cell 7], fnState := 2\<rparr>], [[2, 2]])"
  by (simp add: extractValues_def exTda_def getRow_def getAccumulator_def newRow_def
      listSetOps_def countFn_def makeInputForAggregation_def isSingleInputAggregate_def Let_def)

text \<open>
  C1. Spill and restore on the sample run with \<open>count\<close> as the wrapped aggregate. Never
  spilled, group A (values 5, 5, 7, 5) yields 2 and group B (value 7) yields 1. After
  \<open>extractForSpill\<close> over both groups and \<open>addSingleGroupSpillInput\<close> into new rows
  with each group's own row index, both groups yield 2: group B has received the elements
  of group A as well.
\<close>

theorem spill_restore_two_groups:
  "unspilledResult = Inr [[2, 1]] \<and> restoredResult = Inr [[2, 2]]"
  by (simp only: unspilledResult_def restoredResult_def ex_built ex_extract ex_spill ex_new
      ex_restore0 ex_restore1 ex_extract_restored sum.case prod.case simp_thms)

end
